theory Spec2Isabelle
  imports Complex_Main "HOL-Library.Sublist"
begin

section \<open>Strings and chunks\<close>

text \<open>
  A JavaScript string is a sequence of UTF-16 code units; \<open>jsstring\<close> holds the code
  units as natural numbers. A chunk travelling through a socket is a Buffer; the program
  never looks inside one except through \<open>data.toString()\<close>, so the buffer type is left
  open (\<open>'buf\<close>) and the decoder is a parameter of the model. String literals of the
  program are written through \<open>js\<close>, which maps an ASCII literal to its code units.
\<close>

type_synonym jsstring = "nat list"

definition js :: "string \<Rightarrow> jsstring" where
  "js s = map of_char s"

text \<open>\<open>String.prototype.includes\<close>: does the needle occur at some position of the text?\<close>

fun starts_with :: "'a list \<Rightarrow> 'a list \<Rightarrow> bool" where
  "starts_with str [] = True"
| "starts_with [] (n # ns) = False"
| "starts_with (c # cs) (n # ns) = (c = n \<and> starts_with cs ns)"

fun includes' :: "'a list \<Rightarrow> 'a list \<Rightarrow> bool" where
  "includes' [] needle = (needle = [])"
| "includes' (c # cs) needle = (starts_with (c # cs) needle \<or> includes' cs needle)"

section \<open>LocalConnectionListener\<close>

text \<open>
  The class is a Transform stream owning an EventEmitter. The only event of the emitter is
  \<open>'local:timeout'\<close>, and listeners are only ever added with \<open>once\<close>, so the emitter is
  the list of its pending one-shot callbacks, in registration order. \<open>emit\<close> calls every
  pending callback and leaves none registered.
\<close>

record 'cb LocalConnectionListener =
  emitter :: "'cb list"

definition constructor :: "'cb LocalConnectionListener" where
  "constructor = \<lparr> emitter = [] \<rparr>"

definition onTimeout :: "'cb \<Rightarrow> 'cb LocalConnectionListener \<Rightarrow> 'cb LocalConnectionListener" where
  "onTimeout callback this = this \<lparr> emitter := emitter this @ [callback] \<rparr>"

definition timeout_marker :: jsstring where
  "timeout_marker = js ''408 Request Timeout''"

text \<open>
  \<open>transform' toString data this\<close> is \<open>_transform(data, encoding, callback)\<close>. The result
  holds the instance afterwards, the callbacks that \<open>emit('local:timeout')\<close> ran (in order),
  whether \<open>emit\<close> was called at all, and the chunk handed to \<open>callback(null, data)\<close>.
\<close>

record ('cb, 'buf) transformed =
  instance_after :: "'cb LocalConnectionListener"
  invoked :: "'cb list"
  signalled :: bool
  pushed :: 'buf

definition transform' ::
  "('buf \<Rightarrow> jsstring) \<Rightarrow> 'buf \<Rightarrow> 'cb LocalConnectionListener \<Rightarrow> ('cb, 'buf) transformed" where
  "transform' toString data this =
     (let isTimeout = includes' (toString data) timeout_marker in
      if isTimeout
      then \<lparr> instance_after = this \<lparr> emitter := [] \<rparr>, invoked = emitter this,
             signalled = True, pushed = data \<rparr>
      else \<lparr> instance_after = this, invoked = [], signalled = False, pushed = data \<rparr>)"

text \<open>
  A stream of chunks through one instance: the callbacks run, the chunks pushed, and the
  instance at the end.
\<close>

fun transform_all ::
  "('buf \<Rightarrow> jsstring) \<Rightarrow> 'buf list \<Rightarrow> 'cb LocalConnectionListener
     \<Rightarrow> 'cb list \<times> 'buf list \<times> 'cb LocalConnectionListener" where
  "transform_all toString [] this = ([], [], this)"
| "transform_all toString (data # rest) this =
     (let r = transform' toString data this;
          (cbs, out, final) = transform_all toString rest (instance_after r)
      in (invoked r @ cbs, pushed r # out, final))"

definition has_marker :: "('buf \<Rightarrow> jsstring) \<Rightarrow> 'buf \<Rightarrow> bool" where
  "has_marker toString data = includes' (toString data) timeout_marker"

section \<open>Configuration and runtime\<close>

text \<open>
  \<open>opts\<close> is the options object given to the constructor. A property that may be absent is an
  option (\<open>None\<close> is \<open>undefined\<close>); a port that is given is a natural number. The
  runtime record holds what the program calls but does not define: \<open>fs.readFileSync\<close>
  (\<open>None\<close>: the call throws), \<open>Buffer.toString\<close>, and the rounding of a double-precision
  operation. It also says whether the caller has
  registered a listener for \<open>'error'\<close> on the TunnelCluster: \<open>EventEmitter.emit('error', e)\<close>
  throws \<open>e\<close> when there is none.
\<close>

record opts =
  remote_ip :: "string option"
  remote_host :: "string option"
  remote_port :: "nat option"
  local_host :: "string option"
  local_port :: "nat option"
  local_https :: bool
  allow_invalid_cert :: bool
  local_cert :: "string option"
  local_key :: "string option"
  local_ca :: "string option"
  session_connection :: bool

record 'buf runtime =
  readFileSync :: "string \<Rightarrow> 'buf option"
  toString :: "'buf \<Rightarrow> jsstring"
  round_double :: "real \<Rightarrow> real"
  caller_listens_error :: bool

datatype exn =
    ERR_INVALID_ARG_TYPE
  | ReadFailed string
  | ERR_MISSING_ARGS
  | ERR_SOCKET_BAD_PORT
  | Unhandled_error string

text \<open>Truthiness of a string-valued property: \<open>undefined\<close> and the empty string are falsy.\<close>

fun truthy :: "string option \<Rightarrow> bool" where
  "truthy None = False"
| "truthy (Some v) = (v \<noteq> [])"

text \<open>\<open>a || b\<close> on such properties.\<close>

definition or_else :: "string option \<Rightarrow> string option \<Rightarrow> string option" where
  "or_else a b = (if truthy a then a else b)"

text \<open>A value inside a template literal: \<open>undefined\<close> prints as the word, a number in decimal.\<close>

fun template_str :: "string option \<Rightarrow> string" where
  "template_str None = ''undefined''"
| "template_str (Some v) = v"

definition digit_char :: "nat \<Rightarrow> char" where
  "digit_char d = ''0123456789'' ! d"

fun template_num :: "nat \<Rightarrow> string" where
  "template_num n = (if n < 10 then [digit_char n] else template_num (n div 10) @ [digit_char (n mod 10)])"

fun template_port :: "nat option \<Rightarrow> string" where
  "template_port None = ''undefined''"
| "template_port (Some n) = template_num n"

definition remoteHostOrIp :: "opts \<Rightarrow> string option" where
  "remoteHostOrIp opt = or_else (remote_ip opt) (remote_host opt)"

definition localHost :: "opts \<Rightarrow> string" where
  "localHost opt = (case or_else (local_host opt) (Some ''localhost'') of Some h \<Rightarrow> h | None \<Rightarrow> ''localhost'')"

definition read_file :: "'buf runtime \<Rightarrow> string option \<Rightarrow> exn + 'buf" where
  "read_file rt path =
     (case path of
        None \<Rightarrow> Inl ERR_INVALID_ARG_TYPE
      | Some p \<Rightarrow> (case readFileSync rt p of None \<Rightarrow> Inl (ReadFailed p) | Some b \<Rightarrow> Inr b))"

text \<open>
  \<open>net.connect\<close> and \<open>tls.connect\<close> check the port before they return: with no port, or a
  port above 65535, the call throws.
\<close>

definition check_port :: "nat option \<Rightarrow> exn option" where
  "check_port port =
     (case port of
        None \<Rightarrow> Some ERR_MISSING_ARGS
      | Some p \<Rightarrow> if p \<le> 65535 then None else Some ERR_SOCKET_BAD_PORT)"

section \<open>The activity-detection pattern\<close>

text \<open>
  The pattern \<open>/^(\w+) (\S+)/\<close> has no flags. It is a sequence of atoms, each a literal code
  unit or a capturing group \<open>(C+)\<close> over a character class. \<open>rx_match\<close> is the backtracking
  matcher at one position: a group first takes the longest run of its class and gives
  back one code unit at a time while the rest of the pattern fails. Without the \<open>m\<close> flag
  \<open>^\<close> holds at index 0 only, so the search over start positions is the single attempt
  at the start of the string.
\<close>

datatype atom = Lit nat | PlusGroup "nat \<Rightarrow> bool"

fun rx_match :: "atom list \<Rightarrow> jsstring \<Rightarrow> jsstring list option"
  and rx_plus :: "(nat \<Rightarrow> bool) \<Rightarrow> atom list \<Rightarrow> jsstring \<Rightarrow> nat \<Rightarrow> jsstring list option" where
  "rx_match [] s = Some []"
| "rx_match (Lit c # as) s =
     (case s of [] \<Rightarrow> None | x # xs \<Rightarrow> if x = c then rx_match as xs else None)"
| "rx_match (PlusGroup P # as) s = rx_plus P as s (length (takeWhile P s))"
| "rx_plus P as s 0 = None"
| "rx_plus P as s (Suc n) =
     (case rx_match as (drop (Suc n) s) of
        Some caps \<Rightarrow> Some (take (Suc n) s # caps)
      | None \<Rightarrow> rx_plus P as s n)"

text \<open>\<open>\w\<close> is \<open>[A-Za-z0-9_]\<close>; \<open>\s\<close> is WhiteSpace and LineTerminator of ECMAScript.\<close>

definition is_word :: "nat \<Rightarrow> bool" where
  "is_word c = ((65 \<le> c \<and> c \<le> 90) \<or> (97 \<le> c \<and> c \<le> 122) \<or> (48 \<le> c \<and> c \<le> 57) \<or> c = 95)"

definition is_space :: "nat \<Rightarrow> bool" where
  "is_space c = ((9 \<le> c \<and> c \<le> 13) \<or> c = 32 \<or> c = 160 \<or> c = 5760 \<or> (8192 \<le> c \<and> c \<le> 8202)
      \<or> c = 8232 \<or> c = 8233 \<or> c = 8239 \<or> c = 8287 \<or> c = 12288 \<or> c = 65279)"

definition non_space :: "nat \<Rightarrow> bool" where
  "non_space c = (\<not> is_space c)"

definition request_pattern :: "atom list" where
  "request_pattern = [PlusGroup is_word, Lit 32, PlusGroup non_space]"

text \<open>\<open>str.match(/^(\w+) (\S+)/)\<close>: the two captures, or \<open>None\<close> for \<open>null\<close>.\<close>

definition request_match :: "jsstring \<Rightarrow> (jsstring \<times> jsstring) option" where
  "request_match str =
     (case rx_match request_pattern str of
        Some (m1 # m2 # rest) \<Rightarrow> Some (m1, m2)
      | _ \<Rightarrow> None)"

section \<open>Session state\<close>

text \<open>
  \<open>open()\<close> creates one remote socket and, over time, local sockets; local socket \<open>k\<close> is
  the one created by the \<open>k\<close>-th call of \<open>connLocal\<close> that got that far, and closure \<open>k\<close> is
  that call's \<open>remoteClose\<close>. What the program does to the sockets and to its caller is
  recorded in order in \<open>trace\<close>.
\<close>

datatype emitted = EvOpen | EvRequest jsstring jsstring | EvDead | EvError string

datatype 'buf effect =
    Emit emitted
  | RemoteEnd
  | RemotePause
  | RemoteResume
  | RemoteOnceClose nat
  | RemoteRemoveListener nat
  | RemoteWrite 'buf
  | LocalEnd nat
  | SetTimeout nat

datatype 'buf cert_opts = RejectUnauthorizedFalse | CertKeyCa 'buf 'buf "'buf option"

datatype 'buf transport = NetConnect | TlsConnect "'buf cert_opts"

record 'buf local_conn =
  l_transport :: "'buf transport"
  l_host :: string
  l_port :: "nat option"
  l_ended :: bool
  l_destroyed :: bool
  l_error_once :: bool
  l_setTimeout :: "real option"
  l_timeout_once :: bool
  l_connect_once :: bool
  l_close_once :: bool
  l_host_transform :: "string option"
  l_timeoutInjector :: "nat LocalConnectionListener option"

record 'buf state =
  connecting :: bool
  remote_destroyed :: bool
  remote_closed :: bool
  remote_ended :: bool
  remote_paused :: bool
  remote_connect_once :: bool
  close_listeners :: "nat list"
  locals :: "'buf local_conn list"
  timers :: "nat list"
  now :: nat
  trace :: "'buf effect list"

type_synonym 'buf outcome = "(exn \<times> 'buf state) + 'buf state"

definition do_effect :: "'buf effect \<Rightarrow> 'buf state \<Rightarrow> 'buf state" where
  "do_effect e s = s \<lparr> trace := trace s @ [e] \<rparr>"

definition emit :: "emitted \<Rightarrow> 'buf state \<Rightarrow> 'buf state" where
  "emit ev s = do_effect (Emit ev) s"

definition remote_end :: "'buf state \<Rightarrow> 'buf state" where
  "remote_end s = do_effect RemoteEnd (s \<lparr> remote_ended := True \<rparr>)"

definition remote_pause :: "'buf state \<Rightarrow> 'buf state" where
  "remote_pause s = do_effect RemotePause (s \<lparr> remote_paused := True \<rparr>)"

definition remote_resume :: "'buf state \<Rightarrow> 'buf state" where
  "remote_resume s = do_effect RemoteResume (s \<lparr> remote_paused := False \<rparr>)"

definition remote_once_close :: "nat \<Rightarrow> 'buf state \<Rightarrow> 'buf state" where
  "remote_once_close k s = do_effect (RemoteOnceClose k) (s \<lparr> close_listeners := close_listeners s @ [k] \<rparr>)"

text \<open>\<open>removeListener\<close> removes the most recently added instance of the listener, if any.\<close>

definition remove_last :: "'a \<Rightarrow> 'a list \<Rightarrow> 'a list" where
  "remove_last x xs = rev (remove1 x (rev xs))"

definition remote_removeListener :: "nat \<Rightarrow> 'buf state \<Rightarrow> 'buf state" where
  "remote_removeListener k s =
     do_effect (RemoteRemoveListener k) (s \<lparr> close_listeners := remove_last k (close_listeners s) \<rparr>)"

definition update_local :: "nat \<Rightarrow> ('buf local_conn \<Rightarrow> 'buf local_conn) \<Rightarrow> 'buf state \<Rightarrow> 'buf state" where
  "update_local k f s = s \<lparr> locals := (locals s)[k := f (locals s ! k)] \<rparr>"

definition local_end :: "nat \<Rightarrow> 'buf state \<Rightarrow> 'buf state" where
  "local_end k s = do_effect (LocalEnd k) (update_local k (\<lambda>l. l \<lparr> l_ended := True \<rparr>) s)"

text \<open>\<open>setTimeout(connLocal, ms)\<close>: a pending timer, kept by the time it is due.\<close>

definition setTimeout :: "nat \<Rightarrow> 'buf state \<Rightarrow> 'buf state" where
  "setTimeout ms s = do_effect (SetTimeout ms) (s \<lparr> timers := timers s @ [now s + ms] \<rparr>)"

section \<open>The handlers of \<open>open()\<close>\<close>

text \<open>The template literal of the \<open>error\<close> event.\<close>

definition refused_message :: "opts \<Rightarrow> string" where
  "refused_message opt =
     ''connection refused: '' @ template_str (remoteHostOrIp opt) @ '':''
       @ template_port (remote_port opt) @ '' (check your firewall settings)''"

text \<open>
  The handler of the remote's \<open>'error'\<close>. Without a listener for \<open>'error'\<close> on the
  TunnelCluster, \<open>this.emit('error', ...)\<close> throws the error and \<open>remote.end()\<close> is not
  reached.
\<close>

definition remote_error_handler ::
  "'buf runtime \<Rightarrow> opts \<Rightarrow> string option \<Rightarrow> 'buf state \<Rightarrow> 'buf outcome" where
  "remote_error_handler rt opt code s =
     (if code = Some ''ECONNREFUSED''
      then (if caller_listens_error rt
            then Inr (remote_end (emit (EvError (refused_message opt)) s))
            else Inl (Unhandled_error (refused_message opt), s))
      else Inr (remote_end s))"

definition getLocalCertOpts :: "'buf runtime \<Rightarrow> opts \<Rightarrow> exn + 'buf cert_opts" where
  "getLocalCertOpts rt opt =
     (if allow_invalid_cert opt then Inr RejectUnauthorizedFalse
      else case read_file rt (local_cert opt) of
        Inl e \<Rightarrow> Inl e
      | Inr cert \<Rightarrow>
         (case read_file rt (local_key opt) of
            Inl e \<Rightarrow> Inl e
          | Inr key \<Rightarrow>
             (if truthy (local_ca opt)
              then (case read_file rt (local_ca opt) of
                      Inl e \<Rightarrow> Inl e
                    | Inr ca \<Rightarrow> Inr (CertKeyCa cert key (Some ca)))
              else Inr (CertKeyCa cert key None))))"

definition connect_local :: "'buf runtime \<Rightarrow> opts \<Rightarrow> exn + 'buf transport" where
  "connect_local rt opt =
     (if local_https opt
      then (case getLocalCertOpts rt opt of
              Inl e \<Rightarrow> Inl e
            | Inr c \<Rightarrow>
               (case check_port (local_port opt) of
                  Some e \<Rightarrow> Inl e
                | None \<Rightarrow> Inr (TlsConnect c)))
      else (case check_port (local_port opt) of
              Some e \<Rightarrow> Inl e
            | None \<Rightarrow> Inr NetConnect))"

definition remoteClose :: "nat \<Rightarrow> 'buf state \<Rightarrow> 'buf state" where
  "remoteClose k s = local_end k (emit EvDead s)"

definition local_error_handler :: "nat \<Rightarrow> string option \<Rightarrow> 'buf state \<Rightarrow> 'buf state" where
  "local_error_handler k code s =
     (let s1 = local_end k s;
          s2 = remote_removeListener k s1
      in if code \<noteq> Some ''ECONNREFUSED'' \<and> code \<noteq> Some ''ECONNRESET''
         then remote_end s2
         else setTimeout 1000 s2)"

definition actualTimeoutValue :: "'buf runtime \<Rightarrow> real \<Rightarrow> real" where
  "actualTimeoutValue rt random =
     round_double rt (round_double rt (random * (80000 - 30000)) + 30000)"

definition local_timeout_handler :: "nat \<Rightarrow> 'buf state \<Rightarrow> 'buf state" where
  "local_timeout_handler k s =
     (if connecting s then s
      else remoteClose k (remote_end (remote_removeListener k s)))"

definition onTimeout_callback :: "nat \<Rightarrow> 'buf state \<Rightarrow> 'buf state" where
  "onTimeout_callback k s =
     (if connecting s then s
      else remoteClose k (remote_end (remote_removeListener k s)))"

definition local_connect_handler :: "opts \<Rightarrow> nat \<Rightarrow> 'buf state \<Rightarrow> 'buf state" where
  "local_connect_handler opt k s =
     (let s1 = remote_resume s;
          stream = (if truthy (local_host opt) then local_host opt else None);
          timeoutInjector = onTimeout k constructor
      in update_local k (\<lambda>l. l \<lparr> l_host_transform := stream,
                                   l_timeoutInjector := Some timeoutInjector,
                                   l_close_once := True \<rparr>) s1)"

text \<open>
  \<open>connLocal\<close>; \<open>random\<close> is what \<open>Math.random()\<close> returns when it is called. An exception of
  \<open>readFileSync\<close> leaves \<open>connLocal\<close> after \<open>remote.pause()\<close>.
\<close>

definition connLocal :: "'buf runtime \<Rightarrow> opts \<Rightarrow> real \<Rightarrow> 'buf state \<Rightarrow> 'buf outcome" where
  "connLocal rt opt random s =
     (if remote_destroyed s then Inr (emit EvDead s)
      else
        let s1 = remote_pause s in
        case connect_local rt opt of
          Inl e \<Rightarrow> Inl (e, s1)
        | Inr tr \<Rightarrow>
           (let k = length (locals s1);
                local = \<lparr> l_transport = tr, l_host = localHost opt, l_port = local_port opt,
                          l_ended = False, l_destroyed = False, l_error_once = True,
                          l_setTimeout = (if session_connection opt
                                          then Some (actualTimeoutValue rt random) else None),
                          l_timeout_once = session_connection opt,
                          l_connect_once = True, l_close_once = False,
                          l_host_transform = None, l_timeoutInjector = None \<rparr>;
                s2 = s1 \<lparr> locals := locals s1 @ [local] \<rparr>
            in Inr (remote_once_close k s2)))"

definition remote_data_handler :: "'buf runtime \<Rightarrow> 'buf \<Rightarrow> 'buf state \<Rightarrow> 'buf state" where
  "remote_data_handler rt data s =
     (let s1 = s \<lparr> connecting := True \<rparr> in
      case request_match (toString rt data) of
        Some (method, path) \<Rightarrow> emit (EvRequest method path) s1
      | None \<Rightarrow> s1)"

definition remote_connect_handler :: "'buf runtime \<Rightarrow> opts \<Rightarrow> real \<Rightarrow> 'buf state \<Rightarrow> 'buf outcome" where
  "remote_connect_handler rt opt random s = connLocal rt opt random (emit EvOpen s)"

text \<open>
  \<open>open()\<close> itself: it creates the remote socket with \<open>net.connect\<close>, which throws on a
  missing or bad \<open>remote_port\<close>, and registers the handlers. It calls neither \<open>connLocal\<close>
  nor \<open>readFileSync\<close>. \<open>initial_state\<close> is the session when \<open>open()\<close> has returned; when
  \<open>net.connect\<close> throws, no handler is registered.
\<close>

definition initial_state :: "'buf state" where
  "initial_state =
     \<lparr> connecting = False, remote_destroyed = False, remote_closed = False,
       remote_ended = False, remote_paused = False, remote_connect_once = True,
       close_listeners = [], locals = [], timers = [], now = 0, trace = [] \<rparr>"

definition open' :: "'buf runtime \<Rightarrow> opts \<Rightarrow> 'buf outcome" where
  "open' rt opt =
     (case check_port (remote_port opt) of
        Some e \<Rightarrow> Inl (e, initial_state \<lparr> remote_connect_once := False \<rparr>)
      | None \<Rightarrow> Inr initial_state)"

section \<open>Events\<close>

text \<open>
  The event loop delivers one event at a time and runs its listeners to completion. A
  \<open>once\<close> listener runs for the first event only. What the model takes from the runtime:
  a socket is marked destroyed before it emits \<open>'error'\<close> or \<open>'close'\<close>; a destroyed socket
  emits nothing but its one \<open>'close'\<close>; a timer runs no earlier than it is due. An event
  that the runtime cannot deliver, or for which nothing is registered, leaves the state
  as it is. \<open>RemoteConnect\<close> and \<open>TimerFire\<close> carry the number that \<open>Math.random()\<close> returns
  if \<open>connLocal\<close> calls it; \<open>Advance\<close> lets time pass.
\<close>

datatype 'buf event =
    RemoteConnect real
  | RemoteData 'buf
  | RemoteError "string option"
  | RemoteClose
  | LocalConnect nat
  | LocalError nat "string option"
  | LocalTimeout nat
  | LocalData nat 'buf
  | LocalClose nat
  | TimerFire nat real
  | Advance nat

definition remote_close_event :: "'buf state \<Rightarrow> 'buf state" where
  "remote_close_event s =
     fold remoteClose (close_listeners s)
       (s \<lparr> remote_destroyed := True, remote_closed := True, close_listeners := [] \<rparr>)"

definition local_data_event :: "'buf runtime \<Rightarrow> nat \<Rightarrow> 'buf \<Rightarrow> 'buf state \<Rightarrow> 'buf state" where
  "local_data_event rt k data s =
     (case l_timeoutInjector (locals s ! k) of
        None \<Rightarrow> s
      | Some injector \<Rightarrow>
         (let r = transform' (toString rt) data injector;
              s1 = update_local k (\<lambda>l. l \<lparr> l_timeoutInjector := Some (instance_after r) \<rparr>) s;
              s2 = fold onTimeout_callback (invoked r) s1
          in do_effect (RemoteWrite (pushed r)) s2))"

definition destroy_local :: "nat \<Rightarrow> 'buf state \<Rightarrow> 'buf state" where
  "destroy_local k s = update_local k (\<lambda>l. l \<lparr> l_destroyed := True \<rparr>) s"

definition local_alive :: "nat \<Rightarrow> 'buf state \<Rightarrow> bool" where
  "local_alive k s = (k < length (locals s) \<and> \<not> l_destroyed (locals s ! k))"

fun step :: "'buf runtime \<Rightarrow> opts \<Rightarrow> 'buf state \<Rightarrow> 'buf event \<Rightarrow> 'buf outcome" where
  "step rt opt s (RemoteConnect random) =
     (if remote_connect_once s \<and> \<not> remote_destroyed s
      then remote_connect_handler rt opt random (s \<lparr> remote_connect_once := False \<rparr>)
      else Inr s)"
| "step rt opt s (RemoteData data) =
     (if \<not> remote_destroyed s then Inr (remote_data_handler rt data s) else Inr s)"
| "step rt opt s (RemoteError code) =
     (if \<not> remote_destroyed s
      then remote_error_handler rt opt code (s \<lparr> remote_destroyed := True \<rparr>)
      else Inr s)"
| "step rt opt s RemoteClose =
     (if \<not> remote_closed s then Inr (remote_close_event s) else Inr s)"
| "step rt opt s (LocalConnect k) =
     (if local_alive k s \<and> l_connect_once (locals s ! k)
      then Inr (local_connect_handler opt k (update_local k (\<lambda>l. l \<lparr> l_connect_once := False \<rparr>) s))
      else Inr s)"
| "step rt opt s (LocalError k code) =
     (if local_alive k s \<and> l_error_once (locals s ! k)
      then Inr (local_error_handler k code
                  (update_local k (\<lambda>l. l \<lparr> l_error_once := False \<rparr>) (destroy_local k s)))
      else Inr s)"
| "step rt opt s (LocalTimeout k) =
     (if local_alive k s \<and> l_timeout_once (locals s ! k)
      then Inr (local_timeout_handler k (update_local k (\<lambda>l. l \<lparr> l_timeout_once := False \<rparr>) s))
      else Inr s)"
| "step rt opt s (LocalData k data) =
     (if local_alive k s then Inr (local_data_event rt k data s) else Inr s)"
| "step rt opt s (LocalClose k) =
     (if local_alive k s
      then Inr (update_local k (\<lambda>l. l \<lparr> l_close_once := False \<rparr>) (destroy_local k s))
      else Inr s)"
| "step rt opt s (TimerFire i random) =
     (if i < length (timers s) \<and> timers s ! i \<le> now s
      then connLocal rt opt random (s \<lparr> timers := take i (timers s) @ drop (Suc i) (timers s) \<rparr>)
      else Inr s)"
| "step rt opt s (Advance ms) = Inr (s \<lparr> now := now s + ms \<rparr>)"

text \<open>A run of the event loop; an uncaught exception ends it.\<close>

fun run :: "'buf runtime \<Rightarrow> opts \<Rightarrow> 'buf state \<Rightarrow> 'buf event list \<Rightarrow> 'buf outcome" where
  "run rt opt s [] = Inr s"
| "run rt opt s (e # es) = (case step rt opt s e of Inl x \<Rightarrow> Inl x | Inr s' \<Rightarrow> run rt opt s' es)"

definition session :: "'buf runtime \<Rightarrow> opts \<Rightarrow> 'buf event list \<Rightarrow> 'buf outcome" where
  "session rt opt es = (case open' rt opt of Inl x \<Rightarrow> Inl x | Inr s \<Rightarrow> run rt opt s es)"

text \<open>What the caller sees: the events emitted on the TunnelCluster, in order.\<close>

fun emitted_of :: "'buf effect list \<Rightarrow> emitted list" where
  "emitted_of [] = []"
| "emitted_of (Emit ev # es) = ev # emitted_of es"
| "emitted_of (e # es) = emitted_of es"

section \<open>Example runtime and options\<close>

text \<open>
  A runtime whose buffers are ASCII strings, with no readable file and exact arithmetic,
  under a caller that listens for \<open>'error'\<close>, and the options of a plain HTTP tunnel with
  the session timeout enabled.
\<close>

definition rt0 :: "string runtime" where
  "rt0 = \<lparr> readFileSync = (\<lambda>p. None), toString = js, round_double = (\<lambda>x. x),
           caller_listens_error = True \<rparr>"

definition opts0 :: opts where
  "opts0 = \<lparr> remote_ip = None, remote_host = Some ''lt.example'', remote_port = Some 4242,
             local_host = None, local_port = Some 8080, local_https = False,
             allow_invalid_cert = False, local_cert = None, local_key = None,
             local_ca = None, session_connection = True \<rparr>"

text \<open>What the caller has seen when a session stops, with or without an exception.\<close>

definition caller_saw :: "'buf outcome \<Rightarrow> emitted list" where
  "caller_saw out = (case out of Inl (e, s) \<Rightarrow> emitted_of (trace s) | Inr s \<Rightarrow> emitted_of (trace s))"

text \<open>
  The local service refuses \<open>n\<close> connections in a row: attempt \<open>k\<close> fails with
  \<open>ECONNREFUSED\<close>, a second passes, the retry timer runs.
\<close>

fun refused_rounds :: "nat \<Rightarrow> 'buf event list" where
  "refused_rounds 0 = []"
| "refused_rounds (Suc n) =
     refused_rounds n @ [LocalError n (Some ''ECONNREFUSED''), Advance 1000, TimerFire 0 0]"

text \<open>Options of a tunnel to a local HTTPS service that presents a client certificate.\<close>

definition opts_tls :: opts where
  "opts_tls = opts0 \<lparr> local_https := True, local_cert := Some ''/etc/tunnel/client.crt'',
                       local_key := Some ''/etc/tunnel/client.key'' \<rparr>"

section \<open>Properties of reachable states\<close>

text \<open>
  \<open>pairing_inv\<close> says that the session has at most one pairing in progress: at most one
  retry timer is pending; only the newest local socket can still have its error listener
  registered, and then no timer is pending; a registered close listener belongs to the
  newest local socket, whose error listener is registered too; every older local socket
  is destroyed, and all are while a timer is pending; before the remote connects there is
  no local socket and no timer.
\<close>

definition pairing_inv :: "'buf state \<Rightarrow> bool" where
  "pairing_inv s \<longleftrightarrow>
     length (timers s) \<le> 1 \<and>
     distinct (close_listeners s) \<and>
     (\<forall>k < length (locals s). l_error_once (locals s ! k) \<longrightarrow>
        Suc k = length (locals s) \<and> timers s = []) \<and>
     (\<forall>k \<in> set (close_listeners s).
        Suc k = length (locals s) \<and> l_error_once (locals s ! k)) \<and>
     (\<forall>k < length (locals s). Suc k < length (locals s) \<or> timers s \<noteq> [] \<longrightarrow>
        l_destroyed (locals s ! k)) \<and>
     (remote_connect_once s \<longrightarrow> locals s = [] \<and> timers s = [])"

text \<open>
  \<open>frame s s'\<close> relates a state to a later one when nothing in between created a local
  socket, set or ran a timer, set a socket timeout, or registered a listener.
\<close>

definition frame :: "'buf state \<Rightarrow> 'buf state \<Rightarrow> bool" where
  "frame s s' \<longleftrightarrow>
     length (locals s') = length (locals s) \<and>
     (\<forall>k < length (locals s).
        l_error_once (locals s' ! k) = l_error_once (locals s ! k) \<and>
        (l_destroyed (locals s ! k) \<longrightarrow> l_destroyed (locals s' ! k)) \<and>
        l_setTimeout (locals s' ! k) = l_setTimeout (locals s ! k) \<and>
        (l_timeout_once (locals s' ! k) \<longrightarrow> l_timeout_once (locals s ! k))) \<and>
     timers s' = timers s \<and>
     set (close_listeners s') \<subseteq> set (close_listeners s) \<and>
     (distinct (close_listeners s) \<longrightarrow> distinct (close_listeners s')) \<and>
     (remote_connect_once s' \<longrightarrow> remote_connect_once s) \<and>
     (connecting s \<longrightarrow> connecting s') \<and>
     (remote_destroyed s \<longrightarrow> remote_destroyed s') \<and>
     (remote_closed s' \<longrightarrow> remote_closed s \<or> remote_destroyed s')"

text \<open>
  \<open>only_dead s s'\<close> relates a state to a later one when no local socket was created in
  between, the remote stayed destroyed if it was, and the caller saw nothing but \<open>dead\<close>.
\<close>

definition only_dead :: "'buf state \<Rightarrow> 'buf state \<Rightarrow> bool" where
  "only_dead s s' \<longleftrightarrow>
     (remote_destroyed s \<longrightarrow> remote_destroyed s') \<and>
     length (locals s') = length (locals s) \<and>
     (\<exists>n. emitted_of (trace s') = emitted_of (trace s) @ replicate n EvDead)"

text \<open>
  \<open>unpaired s\<close>: no pairing has been started, so that there is no local socket, no timer
  and no close listener on the remote.
\<close>

definition unpaired :: "'buf state \<Rightarrow> bool" where
  "unpaired s \<longleftrightarrow> locals s = [] \<and> timers s = [] \<and> close_listeners s = []"

text \<open>
  Reading a decimal numeral, to say what the port in the message is: the digits, most
  significant first.
\<close>

definition is_digit :: "char \<Rightarrow> bool" where
  "is_digit c = (48 \<le> (of_char c :: nat) \<and> (of_char c :: nat) \<le> 57)"

definition decimal_value :: "string \<Rightarrow> nat" where
  "decimal_value ds = foldl (\<lambda>a c. 10 * a + (of_char c - 48)) 0 ds"

section \<open>Substring search\<close>

lemma starts_with_iff: "starts_with str needle \<longleftrightarrow> (\<exists>ss. str = needle @ ss)"
  by (induction str needle rule: starts_with.induct) auto

lemma includes_iff: "includes' str needle \<longleftrightarrow> (\<exists>ps ss. str = ps @ needle @ ss)"
proof (induction str)
  case Nil
  then show ?case by auto
next
  case (Cons c cs)
  have "(\<exists>ps ss. c # cs = ps @ needle @ ss) \<longleftrightarrow>
        (\<exists>ss. c # cs = needle @ ss) \<or> (\<exists>ps ss. cs = ps @ needle @ ss)"
  proof
    assume "\<exists>ps ss. c # cs = ps @ needle @ ss"
    then obtain ps ss where eq: "c # cs = ps @ needle @ ss" by blast
    show "(\<exists>ss. c # cs = needle @ ss) \<or> (\<exists>ps ss. cs = ps @ needle @ ss)"
    proof (cases ps)
      case Nil
      with eq show ?thesis by auto
    next
      case (Cons p ps')
      with eq have "cs = ps' @ needle @ ss" by simp
      then show ?thesis by blast
    qed
  next
    assume "(\<exists>ss. c # cs = needle @ ss) \<or> (\<exists>ps ss. cs = ps @ needle @ ss)"
    then show "\<exists>ps ss. c # cs = ps @ needle @ ss"
    proof
      assume "\<exists>ss. c # cs = needle @ ss"
      then obtain ss where "c # cs = [] @ needle @ ss" by auto
      then show ?thesis by blast
    next
      assume "\<exists>ps ss. cs = ps @ needle @ ss"
      then obtain ps ss where "c # cs = (c # ps) @ needle @ ss" by auto
      then show ?thesis by blast
    qed
  qed
  with Cons show ?case by (simp add: starts_with_iff)
qed

section \<open>The timeout sentinel\<close>

lemma transform_pushed: "pushed (transform' decode data this) = data"
  by (simp add: transform'_def Let_def)

lemma transform_signalled:
  "signalled (transform' decode data this) = has_marker decode data"
  by (simp add: transform'_def has_marker_def Let_def)

lemma transform_invoked:
  "invoked (transform' decode data this) = (if has_marker decode data then emitter this else [])"
  by (simp add: transform'_def has_marker_def Let_def)

lemma transform_instance_after:
  "emitter (instance_after (transform' decode data this)) =
     (if has_marker decode data then [] else emitter this)"
  by (simp add: transform'_def has_marker_def Let_def)

lemma has_marker_iff:
  "has_marker decode data \<longleftrightarrow> (\<exists>ps ss. decode data = ps @ timeout_marker @ ss)"
  by (simp add: has_marker_def includes_iff)

text \<open>
  C7. Whatever the chunk, \<open>_transform\<close> hands the very chunk it received to its callback, and
  it emits the timeout signal exactly when the text of the chunk contains
  \<open>408 Request Timeout\<close> at some position, with anything before and after it.
\<close>

theorem transform_identity_and_signal:
  "pushed (transform' decode data this) = data \<and>
   (signalled (transform' decode data this) \<longleftrightarrow>
      (\<exists>ps ss. decode data = ps @ js ''408 Request Timeout'' @ ss))"
  using has_marker_iff [of decode data]
  by (simp add: transform_pushed transform_signalled timeout_marker_def)

theorem transform_identity_and_signal_witness:
  "pushed (transform' js ''HTTP/1.1 408 Request Timeout'' (onTimeout (0::nat) constructor))
     = ''HTTP/1.1 408 Request Timeout'' \<and>
   signalled (transform' js ''HTTP/1.1 408 Request Timeout'' (onTimeout (0::nat) constructor)) \<and>
   \<not> signalled (transform' js ''HTTP/1.1 200 OK'' (onTimeout (0::nat) constructor))"
proof -
  have yes: "js ''HTTP/1.1 408 Request Timeout'' = js ''HTTP/1.1 '' @ js ''408 Request Timeout'' @ []"
    by (simp add: js_def)
  have no: "\<not> includes' (js ''HTTP/1.1 200 OK'') (js ''408 Request Timeout'')"
    by (simp add: js_def)
  from yes have "\<exists>ps ss. js ''HTTP/1.1 408 Request Timeout'' = ps @ js ''408 Request Timeout'' @ ss"
    by blast
  moreover from no
  have "\<not> (\<exists>ps ss. js ''HTTP/1.1 200 OK'' = ps @ js ''408 Request Timeout'' @ ss)"
    using includes_iff [of "js ''HTTP/1.1 200 OK''" "js ''408 Request Timeout''"] by blast
  ultimately show ?thesis
    using transform_identity_and_signal [of js "''HTTP/1.1 408 Request Timeout''" "onTimeout 0 constructor"]
          transform_identity_and_signal [of js "''HTTP/1.1 200 OK''" "onTimeout 0 constructor"]
    by blast
qed

lemma transform_all_invoked:
  "fst (transform_all decode chunks this) =
     (if \<exists>c \<in> set chunks. has_marker decode c then emitter this else [])"
proof (induction chunks arbitrary: this)
  case Nil
  then show ?case by simp
next
  case (Cons data rest)
  show ?case
  proof (cases "has_marker decode data")
    case True
    then show ?thesis
      using Cons [of "instance_after (transform' decode data this)"]
      by (simp add: split_beta Let_def transform_invoked transform_instance_after)
  next
    case False
    then show ?thesis
      using Cons [of "instance_after (transform' decode data this)"]
      by (simp add: split_beta Let_def transform_invoked transform_instance_after)
  qed
qed

lemma transform_all_final:
  "emitter (snd (snd (transform_all decode chunks this))) =
     (if \<exists>c \<in> set chunks. has_marker decode c then [] else emitter this)"
proof (induction chunks arbitrary: this)
  case Nil
  then show ?case by simp
next
  case (Cons data rest)
  show ?case
    using Cons [of "instance_after (transform' decode data this)"]
    by (simp add: split_beta Let_def transform_instance_after)
qed

lemma transform_all_pushed: "fst (snd (transform_all decode chunks this)) = chunks"
  by (induction chunks arbitrary: this) (simp_all add: split_beta Let_def transform_pushed)

lemma transform_all_append:
  "fst (transform_all decode (xs @ ys) this) =
     fst (transform_all decode xs this)
       @ fst (transform_all decode ys (snd (snd (transform_all decode xs this))))"
  by (induction xs arbitrary: this) (simp_all add: split_beta Let_def)

section \<open>The request pattern\<close>

lemma rx_plus_nil: "rx_plus P [] s n = (if n = 0 then None else Some [take n s])"
  by (cases n) simp_all

lemma take_length_takeWhile: "take (length (takeWhile P xs)) xs = takeWhile P xs"
  by (induction xs) simp_all

lemma drop_length_takeWhile: "drop (length (takeWhile P xs)) xs = dropWhile P xs"
  by (induction xs) simp_all

lemma rx_match_last_group:
  "rx_match [PlusGroup P] s = (if takeWhile P s = [] then None else Some [takeWhile P s])"
  by (simp add: rx_plus_nil take_length_takeWhile)

lemma inside_run:
  assumes "n < length (takeWhile P s)"
  shows "\<exists>x rest. drop n s = x # rest \<and> P x"
proof -
  have len: "n < length s"
    using assms length_takeWhile_le [of P s] by simp
  have "takeWhile P s ! n \<in> set (takeWhile P s)"
    using assms by simp
  then have "P (takeWhile P s ! n)"
    by (rule set_takeWhileD [THEN conjunct2])
  then have "P (s ! n)"
    using assms by (simp add: takeWhile_nth)
  moreover have "drop n s = s ! n # drop (Suc n) s"
    using len by (simp add: Cons_nth_drop_Suc)
  ultimately show ?thesis by blast
qed

lemma rx_plus_gives_back_nothing:
  assumes "\<not> P c" and "n < length (takeWhile P s)"
  shows "rx_plus P (Lit c # as) s n = None"
  using assms(2)
proof (induction n)
  case 0
  then show ?case by simp
next
  case (Suc n)
  from inside_run [OF Suc.prems] obtain x rest where "drop (Suc n) s = x # rest" "P x"
    by blast
  with assms(1) have "rx_match (Lit c # as) (drop (Suc n) s) = None"
    by auto
  with Suc show ?case by simp
qed

lemma rx_match_group_then_lit:
  assumes "\<not> P c"
  shows "rx_match (PlusGroup P # Lit c # as) s =
     (if takeWhile P s = [] then None
      else case rx_match (Lit c # as) (dropWhile P s) of
             None \<Rightarrow> None
           | Some caps \<Rightarrow> Some (takeWhile P s # caps))"
proof (cases "length (takeWhile P s)")
  case 0
  then show ?thesis by simp
next
  case (Suc n)
  have "rx_plus P (Lit c # as) s n = None"
    using assms Suc by (simp add: rx_plus_gives_back_nothing)
  moreover have "take (Suc n) s = takeWhile P s" "drop (Suc n) s = dropWhile P s"
    using Suc take_length_takeWhile [of P s] drop_length_takeWhile [of P s] by simp_all
  moreover have "takeWhile P s \<noteq> []"
    using Suc by auto
  ultimately show ?thesis
    using Suc by (simp split: option.splits)
qed

lemma request_match_direct:
  "request_match str =
     (if takeWhile is_word str = [] then None
      else case dropWhile is_word str of
             [] \<Rightarrow> None
           | c # after \<Rightarrow>
               if c = 32 \<and> takeWhile non_space after \<noteq> []
               then Some (takeWhile is_word str, takeWhile non_space after)
               else None)"
proof -
  have nw: "\<not> is_word 32" by (simp add: is_word_def)
  have inner: "rx_match [Lit 32, PlusGroup non_space] r =
      (case r of [] \<Rightarrow> None
       | c # after \<Rightarrow> if c = 32 \<and> takeWhile non_space after \<noteq> []
                      then Some [takeWhile non_space after] else None)" for r
    by (simp add: rx_match_last_group del: rx_match.simps(3) split: list.splits)
  show ?thesis
    unfolding request_match_def request_pattern_def
    by (simp only: rx_match_group_then_lit [of is_word 32, OF nw] inner)
       (cases "dropWhile is_word str"; simp del: dropWhile_eq_Nil_conv)
qed

lemma takeWhile_tokens:
  assumes "list_all P m" and "\<not> P c"
  shows "takeWhile P (m @ c # rest) = m" and "dropWhile P (m @ c # rest) = c # rest"
  using assms by (induction m) simp_all

lemma takeWhile_nonempty_prefix:
  assumes "p \<noteq> []" and "list_all P p"
  shows "takeWhile P (p @ rest) \<noteq> []"
  using assms by (cases p) simp_all

lemma takeWhile_maximal:
  assumes "list_all P p" and "rest = [] \<or> \<not> P (hd rest)"
  shows "takeWhile P (p @ rest) = p"
proof -
  have "takeWhile P rest = []"
    using assms(2) by (cases rest) auto
  with assms(1) show ?thesis
    by (induction p) simp_all
qed

lemma request_match_Some_iff:
  "request_match str = Some (m, p) \<longleftrightarrow>
     m \<noteq> [] \<and> list_all is_word m \<and> p \<noteq> [] \<and> list_all non_space p \<and>
     (\<exists>rest. str = m @ 32 # p @ rest \<and> (rest = [] \<or> is_space (hd rest)))"
  (is "?L \<longleftrightarrow> ?R")
proof
  assume ?L
  then have m: "m = takeWhile is_word str" "m \<noteq> []"
    and "\<exists>after. dropWhile is_word str = 32 # after \<and> p = takeWhile non_space after \<and> p \<noteq> []"
    by (auto simp: request_match_direct split: if_splits list.splits)
  then obtain after where after: "dropWhile is_word str = 32 # after"
    "p = takeWhile non_space after" "p \<noteq> []"
    by blast
  have str: "str = m @ 32 # p @ dropWhile non_space after"
    using takeWhile_dropWhile_id [of is_word str] takeWhile_dropWhile_id [of non_space after]
      m(1) after(1,2) by simp
  have stop: "dropWhile non_space after = [] \<or> is_space (hd (dropWhile non_space after))"
    using hd_dropWhile [of non_space after] by (auto simp: non_space_def)
  have "list_all is_word m" "list_all non_space p"
    using m(1) after(2) by (auto simp: list_all_iff dest: set_takeWhileD)
  with m(2) after(3) str stop show ?R by blast
next
  assume ?R
  then obtain rest where r: "m \<noteq> []" "list_all is_word m" "p \<noteq> []" "list_all non_space p"
    "str = m @ 32 # p @ rest" "rest = [] \<or> is_space (hd rest)"
    by blast
  have nw: "\<not> is_word 32" by (simp add: is_word_def)
  have "takeWhile is_word str = m" "dropWhile is_word str = 32 # p @ rest"
    using takeWhile_tokens [OF r(2) nw] r(5) by simp_all
  moreover have "takeWhile non_space (p @ rest) = p"
    using takeWhile_maximal [OF r(4), of rest] r(6) by (simp add: non_space_def)
  ultimately show ?L
    using r(1,3) by (simp add: request_match_direct)
qed

lemma request_match_None_iff:
  "request_match str = None \<longleftrightarrow>
     \<not> (\<exists>m p rest. m \<noteq> [] \<and> list_all is_word m \<and> p \<noteq> [] \<and> list_all non_space p \<and>
            str = m @ 32 # p @ rest)"
  (is "?L \<longleftrightarrow> \<not> ?E")
proof
  assume none: ?L
  show "\<not> ?E"
  proof
    assume ?E
    then obtain m p rest where r: "m \<noteq> []" "list_all is_word m" "p \<noteq> []" "list_all non_space p"
      "str = m @ 32 # p @ rest"
      by blast
    have nw: "\<not> is_word 32" by (simp add: is_word_def)
    have "takeWhile is_word str = m" "dropWhile is_word str = 32 # p @ rest"
      using takeWhile_tokens [OF r(2) nw] r(5) by simp_all
    moreover have "takeWhile non_space (p @ rest) \<noteq> []"
      using takeWhile_nonempty_prefix [OF r(3,4)] .
    ultimately have "request_match str \<noteq> None"
      using r(1) by (simp add: request_match_direct)
    with none show False by simp
  qed
next
  assume ne: "\<not> ?E"
  show ?L
  proof (rule ccontr)
    assume "request_match str \<noteq> None"
    then obtain m p where "request_match str = Some (m, p)" by auto
    then have "?E" unfolding request_match_Some_iff by blast
    with ne show False by blast
  qed
qed

text \<open>
  C10. The data handler emits \<open>request\<close> for a chunk whose text starts with a run of word
  characters, one space and a run of non-space characters; the method is the whole word run
  and the path the whole non-space run (up to the end of the text or the first white space).
  A chunk whose text does not start with such a pattern in any way emits nothing. The chunk
  \<open>GET /foo HTTP/1.1\r\n...\<close> yields method \<open>GET\<close> and path \<open>/foo\<close>.
\<close>

theorem remote_data_request_event:
  "(\<forall>m p. m \<noteq> [] \<and> list_all is_word m \<and> p \<noteq> [] \<and> list_all non_space p \<and>
           (\<exists>rest. toString rt data = m @ 32 # p @ rest \<and> (rest = [] \<or> is_space (hd rest)))
      \<longrightarrow> trace (remote_data_handler rt data s) = trace s @ [Emit (EvRequest m p)]) \<and>
   ((\<nexists>m p rest. m \<noteq> [] \<and> list_all is_word m \<and> p \<noteq> [] \<and> list_all non_space p \<and>
           toString rt data = m @ 32 # p @ rest)
      \<longrightarrow> trace (remote_data_handler rt data s) = trace s) \<and>
   (toString rt data = js ''GET /foo HTTP/1.1'' @ 13 # 10 # following
      \<longrightarrow> trace (remote_data_handler rt data s) = trace s @ [Emit (EvRequest (js ''GET'') (js ''/foo''))])"
proof (intro conjI allI impI)
  fix m p
  assume "m \<noteq> [] \<and> list_all is_word m \<and> p \<noteq> [] \<and> list_all non_space p \<and>
          (\<exists>rest. toString rt data = m @ 32 # p @ rest \<and> (rest = [] \<or> is_space (hd rest)))"
  then have "request_match (toString rt data) = Some (m, p)"
    using request_match_Some_iff [of "toString rt data" m p] by blast
  then show "trace (remote_data_handler rt data s) = trace s @ [Emit (EvRequest m p)]"
    by (simp add: remote_data_handler_def emit_def do_effect_def)
next
  assume "\<nexists>m p rest. m \<noteq> [] \<and> list_all is_word m \<and> p \<noteq> [] \<and> list_all non_space p \<and>
           toString rt data = m @ 32 # p @ rest"
  then have "request_match (toString rt data) = None"
    using request_match_None_iff [of "toString rt data"] by blast
  then show "trace (remote_data_handler rt data s) = trace s"
    by (simp add: remote_data_handler_def)
next
  assume eq: "toString rt data = js ''GET /foo HTTP/1.1'' @ 13 # 10 # following"
  have "request_match (js ''GET /foo HTTP/1.1'' @ 13 # 10 # following) = Some (js ''GET'', js ''/foo'')"
    by (simp add: request_match_direct js_def is_word_def non_space_def is_space_def)
  with eq show "trace (remote_data_handler rt data s) = trace s @ [Emit (EvRequest (js ''GET'') (js ''/foo''))]"
    by (simp add: remote_data_handler_def emit_def do_effect_def)
qed

theorem remote_data_request_event_witness:
  "trace (remote_data_handler rt0 (''GET /foo HTTP/1.1'' @ [CHR 0x0D, CHR 0x0A] @ ''Host: a.example'') initial_state)
     = [Emit (EvRequest (js ''GET'') (js ''/foo''))] \<and>
   trace (remote_data_handler rt0 [CHR 0x16, CHR 0x03, CHR 0x01, CHR 0x20, CHR ''a''] initial_state) = []"
proof -
  have a: "toString rt0 (''GET /foo HTTP/1.1'' @ [CHR 0x0D, CHR 0x0A] @ ''Host: a.example'')
        = js ''GET /foo HTTP/1.1'' @ 13 # 10 # js ''Host: a.example''"
    by (simp add: rt0_def js_def)
  have "request_match (toString rt0 [CHR 0x16, CHR 0x03, CHR 0x01, CHR 0x20, CHR ''a'']) = None"
    by (simp add: request_match_direct rt0_def js_def is_word_def)
  then have b: "\<nexists>m p rest. m \<noteq> [] \<and> list_all is_word m \<and> p \<noteq> [] \<and> list_all non_space p \<and>
           toString rt0 [CHR 0x16, CHR 0x03, CHR 0x01, CHR 0x20, CHR ''a''] = m @ 32 # p @ rest"
    using request_match_None_iff [of "toString rt0 [CHR 0x16, CHR 0x03, CHR 0x01, CHR 0x20, CHR ''a'']"]
    by blast
  have t: "trace (initial_state :: string state) = []"
    by (simp add: initial_state_def)
  show ?thesis
    using remote_data_request_event
            [where rt = rt0 and s = "initial_state :: string state" and following = "js ''Host: a.example''"
               and data = "''GET /foo HTTP/1.1'' @ [CHR 0x0D, CHR 0x0A] @ ''Host: a.example''"]
          remote_data_request_event
            [where rt = rt0 and s = "initial_state :: string state"
               and data = "[CHR 0x16, CHR 0x03, CHR 0x01, CHR 0x20, CHR ''a'']"]
          a b t
    by simp
qed

section \<open>Frames and the pairing invariant\<close>

lemmas op_defs = do_effect_def emit_def remote_end_def remote_pause_def remote_resume_def
  remote_once_close_def remote_removeListener_def update_local_def local_end_def
  setTimeout_def remoteClose_def

lemmas eval_defs = session_def open'_def check_port_def initial_state_def remote_connect_handler_def
  connLocal_def connect_local_def Let_def op_defs local_connect_handler_def local_alive_def
  actualTimeoutValue_def onTimeout_def constructor_def localHost_def or_else_def
  remote_data_handler_def destroy_local_def local_error_handler_def remote_close_event_def
  remote_error_handler_def remoteHostOrIp_def remove_last_def refused_message_def

lemma frame_refl: "frame s s"
  by (simp add: frame_def)

lemma frame_trans:
  assumes st: "frame s t" and tu: "frame t u"
  shows "frame s u"
proof -
  have len: "length (locals t) = length (locals s)" "length (locals u) = length (locals t)"
    using st tu by (simp_all add: frame_def)
  have flags: "l_error_once (locals u ! k) = l_error_once (locals s ! k) \<and>
        (l_destroyed (locals s ! k) \<longrightarrow> l_destroyed (locals u ! k)) \<and>
        l_setTimeout (locals u ! k) = l_setTimeout (locals s ! k) \<and>
        (l_timeout_once (locals u ! k) \<longrightarrow> l_timeout_once (locals s ! k))"
    if "k < length (locals s)" for k
  proof -
    have "l_error_once (locals t ! k) = l_error_once (locals s ! k) \<and>
        (l_destroyed (locals s ! k) \<longrightarrow> l_destroyed (locals t ! k)) \<and>
        l_setTimeout (locals t ! k) = l_setTimeout (locals s ! k) \<and>
        (l_timeout_once (locals t ! k) \<longrightarrow> l_timeout_once (locals s ! k))"
      using st that by (simp add: frame_def)
    moreover have "l_error_once (locals u ! k) = l_error_once (locals t ! k) \<and>
        (l_destroyed (locals t ! k) \<longrightarrow> l_destroyed (locals u ! k)) \<and>
        l_setTimeout (locals u ! k) = l_setTimeout (locals t ! k) \<and>
        (l_timeout_once (locals u ! k) \<longrightarrow> l_timeout_once (locals t ! k))"
      using tu that len by (simp add: frame_def)
    ultimately show ?thesis by simp
  qed
  have rest: "timers u = timers s"
    "set (close_listeners u) \<subseteq> set (close_listeners s)"
    "distinct (close_listeners s) \<longrightarrow> distinct (close_listeners u)"
    "remote_connect_once u \<longrightarrow> remote_connect_once s"
    "connecting s \<longrightarrow> connecting u"
    "remote_destroyed s \<longrightarrow> remote_destroyed u"
    using st tu unfolding frame_def by (simp, blast, simp, simp, simp, simp)
  have closed: "remote_closed u \<longrightarrow> remote_closed s \<or> remote_destroyed u"
    using st tu unfolding frame_def by blast
  show ?thesis
    unfolding frame_def using len flags rest closed by simp
qed

lemma nth_update_at:
  "j < length xs \<Longrightarrow> (xs[k := f (xs ! k)]) ! j = (if j = k then f (xs ! j) else xs ! j)"
  by (cases "k < length xs") (auto simp: nth_list_update)

lemma set_remove_last: "set (remove_last x xs) \<subseteq> set xs"
  using set_remove1_subset [of x "rev xs"] by (simp add: remove_last_def)

lemma distinct_remove_last: "distinct xs \<Longrightarrow> distinct (remove_last x xs)"
  by (simp add: remove_last_def)

lemma remove_last_absent: "distinct xs \<Longrightarrow> x \<notin> set (remove_last x xs)"
  by (simp add: remove_last_def)

lemma frame_do_effect: "frame s (do_effect e s)"
  by (simp add: frame_def do_effect_def)

lemma frame_update_local:
  assumes "\<And>l. l_error_once (f l) = l_error_once l"
    and "\<And>l. l_destroyed l \<Longrightarrow> l_destroyed (f l)"
    and "\<And>l. l_setTimeout (f l) = l_setTimeout l"
    and "\<And>l. l_timeout_once (f l) \<Longrightarrow> l_timeout_once l"
  shows "frame s (update_local k f s)"
  using assms by (simp add: frame_def update_local_def nth_update_at)

lemma frame_remote_end: "frame s (remote_end s)"
  by (simp add: frame_def remote_end_def do_effect_def)

lemma frame_remote_resume: "frame s (remote_resume s)"
  by (simp add: frame_def remote_resume_def do_effect_def)

lemma frame_local_end: "frame s (local_end k s)"
  by (simp add: frame_def local_end_def update_local_def do_effect_def nth_update_at)

lemma frame_remote_removeListener: "frame s (remote_removeListener k s)"
  using set_remove_last [of k "close_listeners s"]
  by (simp add: frame_def remote_removeListener_def do_effect_def distinct_remove_last)

lemma frame_remoteClose: "frame s (remoteClose k s)"
  unfolding remoteClose_def emit_def
  by (rule frame_trans [OF frame_do_effect frame_local_end])

lemma frame_teardown: "frame s (remoteClose k (remote_end (remote_removeListener k s)))"
  by (rule frame_trans [OF frame_remote_removeListener
        frame_trans [OF frame_remote_end frame_remoteClose]])

lemma frame_local_timeout_handler: "frame s (local_timeout_handler k s)"
  by (simp add: local_timeout_handler_def frame_refl frame_teardown)

lemma frame_onTimeout_callback: "frame s (onTimeout_callback k s)"
  by (simp add: onTimeout_callback_def frame_refl frame_teardown)

lemma frame_fold:
  assumes "\<And>k t. frame t (f k t)"
  shows "frame s (fold f ks s)"
proof (induction ks arbitrary: s)
  case Nil
  show ?case by (simp add: frame_refl)
next
  case (Cons k ks)
  show ?case
    using frame_trans [OF assms [of s k] Cons [of "f k s"]] by simp
qed

lemma frame_remote_close_event: "frame s (remote_close_event s)"
proof -
  have "frame s (s \<lparr> remote_destroyed := True, remote_closed := True, close_listeners := [] \<rparr>)"
    by (simp add: frame_def)
  then show ?thesis
    unfolding remote_close_event_def
    by (rule frame_trans) (rule frame_fold, rule frame_remoteClose)
qed

lemma frame_local_data_event: "frame s (local_data_event rt k data s)"
proof (cases "l_timeoutInjector (locals s ! k)")
  case None
  then show ?thesis by (simp add: local_data_event_def frame_refl)
next
  case (Some injector)
  let ?r = "transform' (toString rt) data injector"
  let ?s1 = "update_local k (\<lambda>l. l \<lparr> l_timeoutInjector := Some (instance_after ?r) \<rparr>) s"
  have "frame s ?s1" by (rule frame_update_local) simp_all
  moreover have "frame ?s1 (fold onTimeout_callback (invoked ?r) ?s1)"
    by (rule frame_fold) (rule frame_onTimeout_callback)
  moreover have "frame (fold onTimeout_callback (invoked ?r) ?s1)
      (do_effect (RemoteWrite (pushed ?r)) (fold onTimeout_callback (invoked ?r) ?s1))"
    by (rule frame_do_effect)
  ultimately have "frame s (do_effect (RemoteWrite (pushed ?r)) (fold onTimeout_callback (invoked ?r) ?s1))"
    using frame_trans by blast
  then show ?thesis
    using Some by (simp add: local_data_event_def Let_def)
qed

lemma frame_remote_data_handler: "frame s (remote_data_handler rt data s)"
proof -
  have "frame s (s \<lparr> connecting := True \<rparr>)" by (simp add: frame_def)
  moreover have "frame (s \<lparr> connecting := True \<rparr>) (emit ev (s \<lparr> connecting := True \<rparr>))" for ev
    unfolding emit_def by (rule frame_do_effect)
  ultimately have "frame s (emit ev (s \<lparr> connecting := True \<rparr>))" for ev
    using frame_trans by blast
  with \<open>frame s (s \<lparr> connecting := True \<rparr>)\<close> show ?thesis
    by (simp add: remote_data_handler_def Let_def split: option.splits prod.splits)
qed

lemma frame_remote_error_handler:
  assumes "remote_error_handler rt opt code s = Inr s'"
  shows "frame s s'"
proof -
  have "frame s (remote_end (emit ev s))" for ev
    unfolding emit_def by (rule frame_trans [OF frame_do_effect frame_remote_end])
  then show ?thesis
    using assms by (auto simp: remote_error_handler_def frame_remote_end split: if_splits)
qed

lemma frame_local_connect_handler: "frame s (local_connect_handler opt k s)"
  unfolding local_connect_handler_def Let_def
  by (rule frame_trans [OF frame_remote_resume]) (rule frame_update_local, simp_all)

lemma frame_preserves_inv:
  assumes inv: "pairing_inv s" and fr: "frame s s'"
  shows "pairing_inv s'"
proof -
  have len: "length (locals s') = length (locals s)" and tm: "timers s' = timers s"
    using fr by (simp_all add: frame_def)
  have eo: "l_error_once (locals s' ! k) = l_error_once (locals s ! k)"
    and ds: "l_destroyed (locals s ! k) \<Longrightarrow> l_destroyed (locals s' ! k)"
    if "k < length (locals s)" for k
    using fr that by (simp_all add: frame_def)
  have sub: "set (close_listeners s') \<subseteq> set (close_listeners s)"
    and dist: "distinct (close_listeners s')"
    and once: "remote_connect_once s' \<Longrightarrow> remote_connect_once s"
    using fr inv by (simp_all add: frame_def pairing_inv_def)
  have i1: "length (timers s') \<le> 1"
    using inv tm by (simp add: pairing_inv_def)
  have i3: "Suc k = length (locals s') \<and> timers s' = []"
    if "k < length (locals s')" "l_error_once (locals s' ! k)" for k
    using inv that len tm eo [of k] by (simp add: pairing_inv_def)
  have i4: "Suc k = length (locals s') \<and> l_error_once (locals s' ! k)"
    if "k \<in> set (close_listeners s')" for k
  proof -
    from that sub have "k \<in> set (close_listeners s)" by blast
    then have "Suc k = length (locals s) \<and> l_error_once (locals s ! k)"
      using inv by (simp add: pairing_inv_def)
    then show ?thesis using len eo [of k] by simp
  qed
  have i5: "l_destroyed (locals s' ! k)"
    if "k < length (locals s')" "Suc k < length (locals s') \<or> timers s' \<noteq> []" for k
  proof -
    have "l_destroyed (locals s ! k)"
      using inv that len tm by (auto simp: pairing_inv_def)
    then show ?thesis using ds [of k] that(1) len by simp
  qed
  have i6: "locals s' = [] \<and> timers s' = []" if "remote_connect_once s'"
    using inv once [OF that] len tm by (simp add: pairing_inv_def)
  show ?thesis
    unfolding pairing_inv_def using i1 dist i3 i4 i5 i6 by blast
qed

lemma connLocal_new_local:
  assumes "\<not> remote_destroyed s" and "connect_local rt opt = Inr tr"
  shows "\<exists>s'. connLocal rt opt random s = Inr s' \<and>
           locals s' = locals s @
             [\<lparr> l_transport = tr, l_host = localHost opt, l_port = local_port opt,
                l_ended = False, l_destroyed = False, l_error_once = True,
                l_setTimeout = (if session_connection opt
                                then Some (actualTimeoutValue rt random) else None),
                l_timeout_once = session_connection opt,
                l_connect_once = True, l_close_once = False,
                l_host_transform = None, l_timeoutInjector = None \<rparr>] \<and>
           trace s' = trace s @ [RemotePause, RemoteOnceClose (length (locals s))] \<and>
           close_listeners s' = close_listeners s @ [length (locals s)] \<and>
           timers s' = timers s \<and> now s' = now s \<and> connecting s' = connecting s \<and>
           remote_destroyed s' = remote_destroyed s \<and> remote_closed s' = remote_closed s \<and>
           remote_connect_once s' = remote_connect_once s"
  using assms by (simp add: connLocal_def Let_def op_defs)

lemma connLocal_destroyed:
  "remote_destroyed s \<Longrightarrow> connLocal rt opt random s = Inr (emit EvDead s)"
  by (simp add: connLocal_def)

lemma connLocal_throws:
  "\<not> remote_destroyed s \<Longrightarrow> connect_local rt opt = Inl e \<Longrightarrow>
     connLocal rt opt random s = Inl (e, remote_pause s)"
  by (simp add: connLocal_def Let_def)

lemma connLocal_inv:
  assumes quiet: "length (timers s) \<le> 1" "timers s = []" "close_listeners s = []"
      "\<not> remote_connect_once s"
      "\<forall>k < length (locals s). \<not> l_error_once (locals s ! k) \<and> l_destroyed (locals s ! k)"
    and res: "connLocal rt opt random s = Inr s'"
  shows "pairing_inv s'"
proof (cases "remote_destroyed s")
  case True
  then have "s' = emit EvDead s"
    using res by (simp add: connLocal_destroyed)
  then show ?thesis
    using quiet by (simp add: pairing_inv_def emit_def do_effect_def)
next
  case False
  show ?thesis
  proof (cases "connect_local rt opt")
    case (Inl e)
    then show ?thesis
      using res False by (simp add: connLocal_throws)
  next
    case (Inr tr)
    from connLocal_new_local [OF False Inr, of random]
    obtain t new where t: "connLocal rt opt random s = Inr t" "locals t = locals s @ [new]"
      "l_error_once new" "close_listeners t = close_listeners s @ [length (locals s)]"
      "timers t = timers s" "remote_connect_once t = remote_connect_once s"
      by fastforce
    have "t = s'" using t(1) res by simp
    with t quiet have new: "l_error_once new" "locals s' = locals s @ [new]"
      and oth: "close_listeners s' = [length (locals s)]" "timers s' = []"
        "\<not> remote_connect_once s'"
      by simp_all
    have old: "\<not> l_error_once (locals s' ! k) \<and> l_destroyed (locals s' ! k)"
      if "k < length (locals s)" for k
      using that quiet(5) new(2) by (simp add: nth_append)
    have last: "locals s' ! length (locals s) = new"
      using new(2) by simp
    have len: "length (locals s') = Suc (length (locals s))"
      using new(2) by simp
    have i3: "Suc k = length (locals s') \<and> timers s' = []"
      if "k < length (locals s')" "l_error_once (locals s' ! k)" for k
    proof -
      have "k = length (locals s)"
        using that old [of k] len by (cases "k < length (locals s)") auto
      then show ?thesis using len oth(2) by simp
    qed
    have i5: "l_destroyed (locals s' ! k)"
      if "k < length (locals s')" "Suc k < length (locals s') \<or> timers s' \<noteq> []" for k
      using that old [of k] len oth(2) by auto
    show ?thesis
      unfolding pairing_inv_def
      using i3 i5 oth new(1) last len by auto
  qed
qed

lemma inv_no_listener_without_pairing:
  assumes "pairing_inv s" and "\<forall>k < length (locals s). \<not> l_error_once (locals s ! k)"
  shows "close_listeners s = []"
proof (rule ccontr)
  assume "close_listeners s \<noteq> []"
  then obtain k where k: "k \<in> set (close_listeners s)"
    by (cases "close_listeners s") auto
  then have "Suc k = length (locals s)" "l_error_once (locals s ! k)"
    using assms(1) by (simp_all add: pairing_inv_def)
  with assms(2) show False by auto
qed

lemma step_inv_RemoteConnect:
  assumes inv: "pairing_inv s" and st: "step rt opt s (RemoteConnect random) = Inr s'"
  shows "pairing_inv s'"
proof (cases "remote_connect_once s \<and> \<not> remote_destroyed s")
  case False
  then show ?thesis using inv st by auto
next
  case True
  let ?s0 = "emit EvOpen (s \<lparr> remote_connect_once := False \<rparr>)"
  have e: "locals s = []" "timers s = []"
    using inv True by (simp_all add: pairing_inv_def)
  then have "close_listeners s = []"
    using inv_no_listener_without_pairing [OF inv] by simp
  with e have q: "length (timers ?s0) \<le> 1" "timers ?s0 = []" "close_listeners ?s0 = []"
    "\<not> remote_connect_once ?s0"
    "\<forall>k < length (locals ?s0). \<not> l_error_once (locals ?s0 ! k) \<and> l_destroyed (locals ?s0 ! k)"
    by (simp_all add: emit_def do_effect_def)
  have "connLocal rt opt random ?s0 = Inr s'"
    using st True by (simp add: remote_connect_handler_def)
  from connLocal_inv [OF q this] show ?thesis .
qed

lemma step_inv_TimerFire:
  assumes inv: "pairing_inv s" and st: "step rt opt s (TimerFire i random) = Inr s'"
  shows "pairing_inv s'"
proof (cases "i < length (timers s) \<and> timers s ! i \<le> now s")
  case False
  then show ?thesis using inv st by auto
next
  case True
  let ?s0 = "s \<lparr> timers := take i (timers s) @ drop (Suc i) (timers s) \<rparr>"
  have one: "length (timers s) = 1" "i = 0"
    using inv True by (auto simp: pairing_inv_def)
  then have ne: "timers s \<noteq> []" by auto
  have quietl: "\<forall>k < length (locals s). \<not> l_error_once (locals s ! k) \<and> l_destroyed (locals s ! k)"
    using inv ne by (auto simp: pairing_inv_def)
  then have nl: "close_listeners s = []"
    using inv_no_listener_without_pairing [OF inv] by simp
  have nc: "\<not> remote_connect_once s"
    using inv ne by (auto simp: pairing_inv_def)
  have q: "length (timers ?s0) \<le> 1" "timers ?s0 = []" "close_listeners ?s0 = []"
    "\<not> remote_connect_once ?s0"
    "\<forall>k < length (locals ?s0). \<not> l_error_once (locals ?s0 ! k) \<and> l_destroyed (locals ?s0 ! k)"
    using one quietl nl nc by simp_all
  have "connLocal rt opt random ?s0 = Inr s'"
    using st True by simp
  from connLocal_inv [OF q this] show ?thesis .
qed

lemma local_error_handler_fields:
  "locals (local_error_handler k code s) = (locals s)[k := (locals s ! k) \<lparr> l_ended := True \<rparr>]"
  "close_listeners (local_error_handler k code s) = remove_last k (close_listeners s)"
  "timers (local_error_handler k code s) =
     (if code \<noteq> Some ''ECONNREFUSED'' \<and> code \<noteq> Some ''ECONNRESET''
      then timers s else timers s @ [now s + 1000])"
  "remote_connect_once (local_error_handler k code s) = remote_connect_once s"
  "connecting (local_error_handler k code s) = connecting s"
  "remote_destroyed (local_error_handler k code s) = remote_destroyed s"
  "now (local_error_handler k code s) = now s"
  "remote_closed (local_error_handler k code s) = remote_closed s"
  by (simp_all add: local_error_handler_def Let_def op_defs)

lemma step_inv_LocalError:
  assumes inv: "pairing_inv s" and st: "step rt opt s (LocalError k code) = Inr s'"
  shows "pairing_inv s'"
proof (cases "local_alive k s \<and> l_error_once (locals s ! k)")
  case False
  then show ?thesis using inv st by auto
next
  case True
  let ?s0 = "update_local k (\<lambda>l. l \<lparr> l_error_once := False \<rparr>) (destroy_local k s)"
  have s': "s' = local_error_handler k code ?s0"
    using st True by simp
  have k: "k < length (locals s)" "Suc k = length (locals s)" "timers s = []"
    using inv True by (auto simp: pairing_inv_def local_alive_def)
  have len: "length (locals s') = length (locals s)"
    by (simp add: s' local_error_handler_fields update_local_def destroy_local_def)
  have flags: "\<not> l_error_once (locals s' ! j) \<and> l_destroyed (locals s' ! j)"
    if "j < length (locals s)" for j
  proof (cases "j = k")
    case True
    then show ?thesis
      using k(1) by (simp add: s' local_error_handler_fields update_local_def destroy_local_def)
  next
    case False
    with that k(2) have "Suc j < length (locals s)" by simp
    then have d: "l_destroyed (locals s ! j)"
      using inv that by (simp add: pairing_inv_def)
    have "\<not> l_error_once (locals s ! j)"
    proof
      assume "l_error_once (locals s ! j)"
      with inv that have "Suc j = length (locals s)"
        by (simp add: pairing_inv_def)
      with \<open>Suc j < length (locals s)\<close> show False by simp
    qed
    with d have "l_destroyed (locals s ! j)" "\<not> l_error_once (locals s ! j)"
      by simp_all
    then show ?thesis
      using False that
      by (simp add: s' local_error_handler_fields update_local_def destroy_local_def)
  qed
  have sub: "set (close_listeners s) \<subseteq> {k}"
    using inv k(2) by (auto simp: pairing_inv_def)
  have "distinct (close_listeners s)"
    using inv by (simp add: pairing_inv_def)
  then have "k \<notin> set (remove_last k (close_listeners s))"
    by (rule remove_last_absent)
  with sub set_remove_last [of k "close_listeners s"]
  have "x \<notin> set (remove_last k (close_listeners s))" for x by blast
  then have "remove_last k (close_listeners s) = []"
    by (cases "remove_last k (close_listeners s)") auto
  then have nl: "close_listeners s' = []"
    by (simp add: s' local_error_handler_fields update_local_def destroy_local_def)
  have tm: "length (timers s') \<le> 1"
    using k(3) by (simp add: s' local_error_handler_fields update_local_def destroy_local_def)
  have nc: "\<not> remote_connect_once s'"
    using inv k(1)
    by (auto simp: s' local_error_handler_fields update_local_def destroy_local_def pairing_inv_def)
  show ?thesis
    unfolding pairing_inv_def using len flags nl tm nc by simp
qed

lemma step_frame:
  assumes "step rt opt s e = Inr s'"
    and "\<And>r. e \<noteq> RemoteConnect r" "\<And>i r. e \<noteq> TimerFire i r" "\<And>k c. e \<noteq> LocalError k c"
    and "\<And>ms. e \<noteq> Advance ms"
  shows "frame s s'"
proof (cases e)
  case (RemoteData d)
  then show ?thesis
    using assms(1) frame_remote_data_handler [of s rt d] by (auto simp: frame_refl split: if_splits)
next
  case (RemoteError c)
  show ?thesis
  proof (cases "remote_destroyed s")
    case True
    then show ?thesis using assms(1) RemoteError by (auto simp: frame_refl)
  next
    case False
    have f: "frame s (s \<lparr> remote_destroyed := True \<rparr>)" by (simp add: frame_def)
    have "remote_error_handler rt opt c (s \<lparr> remote_destroyed := True \<rparr>) = Inr s'"
      using assms(1) RemoteError False by simp
    from frame_trans [OF f frame_remote_error_handler [OF this]]
    show ?thesis .
  qed
next
  case RemoteClose
  then show ?thesis
    using assms(1) frame_remote_close_event [of s] by (auto simp: frame_refl split: if_splits)
next
  case (LocalConnect k)
  have "frame s (update_local k (\<lambda>l. l \<lparr> l_connect_once := False \<rparr>) s)"
    by (rule frame_update_local) simp_all
  from frame_trans [OF this frame_local_connect_handler]
  show ?thesis
    using assms(1) LocalConnect by (auto simp: frame_refl split: if_splits)
next
  case (LocalTimeout k)
  have "frame s (update_local k (\<lambda>l. l \<lparr> l_timeout_once := False \<rparr>) s)"
    by (rule frame_update_local) simp_all
  from frame_trans [OF this frame_local_timeout_handler]
  show ?thesis
    using assms(1) LocalTimeout by (auto simp: frame_refl split: if_splits)
next
  case (LocalData k d)
  then show ?thesis
    using assms(1) frame_local_data_event [of s rt k d] by (auto simp: frame_refl split: if_splits)
next
  case (LocalClose k)
  have "frame s (destroy_local k s)"
    unfolding destroy_local_def by (rule frame_update_local) simp_all
  moreover have "frame (destroy_local k s)
      (update_local k (\<lambda>l. l \<lparr> l_close_once := False \<rparr>) (destroy_local k s))"
    by (rule frame_update_local) simp_all
  ultimately have "frame s (update_local k (\<lambda>l. l \<lparr> l_close_once := False \<rparr>) (destroy_local k s))"
    by (rule frame_trans)
  then show ?thesis
    using assms(1) LocalClose by (auto simp: frame_refl split: if_splits)
qed (use assms in auto)

lemma step_inv:
  assumes inv: "pairing_inv s" and st: "step rt opt s e = Inr s'"
  shows "pairing_inv s'"
proof (cases e)
  case (RemoteConnect r)
  with inv st show ?thesis by (simp only: step_inv_RemoteConnect)
next
  case (TimerFire i r)
  with inv st show ?thesis by (simp only: step_inv_TimerFire)
next
  case (LocalError k c)
  with inv st show ?thesis by (simp only: step_inv_LocalError)
next
  case (Advance ms)
  with inv st show ?thesis by (auto simp: pairing_inv_def)
next
  case (RemoteData d)
  then have "frame s s'"
    using step_frame [OF st] by simp
  with inv show ?thesis by (rule frame_preserves_inv)
next
  case (RemoteError c)
  then have "frame s s'"
    using step_frame [OF st] by simp
  with inv show ?thesis by (rule frame_preserves_inv)
next
  case RemoteClose
  then have "frame s s'"
    using step_frame [OF st] by simp
  with inv show ?thesis by (rule frame_preserves_inv)
next
  case (LocalConnect k)
  then have "frame s s'"
    using step_frame [OF st] by simp
  with inv show ?thesis by (rule frame_preserves_inv)
next
  case (LocalTimeout k)
  then have "frame s s'"
    using step_frame [OF st] by simp
  with inv show ?thesis by (rule frame_preserves_inv)
next
  case (LocalData k d)
  then have "frame s s'"
    using step_frame [OF st] by simp
  with inv show ?thesis by (rule frame_preserves_inv)
next
  case (LocalClose k)
  then have "frame s s'"
    using step_frame [OF st] by simp
  with inv show ?thesis by (rule frame_preserves_inv)
qed

lemma run_inv:
  assumes "pairing_inv s" and "run rt opt s es = Inr s'"
  shows "pairing_inv s'"
  using assms
proof (induction es arbitrary: s)
  case Nil
  then show ?case by simp
next
  case (Cons e es)
  then show ?case
    by (auto split: sum.splits dest: step_inv)
qed

lemma initial_inv: "pairing_inv initial_state"
  by (simp add: pairing_inv_def initial_state_def)

lemma open_returns: "open' rt opt = Inr s \<Longrightarrow> s = initial_state"
  by (simp add: open'_def split: option.splits)

lemma session_run:
  assumes "session rt opt es = Inr s"
  shows "open' rt opt = Inr initial_state" and "run rt opt initial_state es = Inr s"
  using assms by (auto simp: session_def open'_def split: option.splits)

lemma session_inv: "session rt opt es = Inr s \<Longrightarrow> pairing_inv s"
  using run_inv [OF initial_inv] session_run(2) by blast

section \<open>Session timeout value\<close>

lemma actualTimeoutValue_bounds:
  assumes mono: "mono (round_double rt)"
    and exact: "round_double rt 0 = 0" "round_double rt 30000 = 30000"
      "round_double rt 50000 = 50000" "round_double rt 80000 = 80000"
    and rnd: "0 \<le> random" "random < 1"
  shows "30000 \<le> actualTimeoutValue rt random \<and> actualTimeoutValue rt random \<le> 80000"
proof -
  let ?f = "round_double rt"
  have p1: "0 \<le> random * 50000" using rnd by simp
  have p2: "random * 50000 \<le> 50000" using rnd by simp
  have a: "?f 0 \<le> ?f (random * 50000)" by (rule monoD [OF mono p1])
  have b: "?f (random * 50000) \<le> ?f 50000" by (rule monoD [OF mono p2])
  have q1: "30000 \<le> ?f (random * 50000) + 30000" using a exact(1) by linarith
  have q2: "?f (random * 50000) + 30000 \<le> 80000" using b exact(3) by linarith
  have c: "?f 30000 \<le> ?f (?f (random * 50000) + 30000)" by (rule monoD [OF mono q1])
  have d: "?f (?f (random * 50000) + 30000) \<le> ?f 80000" by (rule monoD [OF mono q2])
  have v: "actualTimeoutValue rt random = ?f (?f (random * 50000) + 30000)"
    by (simp add: actualTimeoutValue_def)
  show ?thesis
    using c d exact(2,4) v by linarith
qed

lemma connLocal_no_idle_timer:
  assumes off: "\<not> session_connection opt"
    and none: "\<forall>k < length (locals s). l_setTimeout (locals s ! k) = None \<and> \<not> l_timeout_once (locals s ! k)"
    and res: "connLocal rt opt random s = Inr s'"
  shows "\<forall>k < length (locals s'). l_setTimeout (locals s' ! k) = None \<and> \<not> l_timeout_once (locals s' ! k)"
proof (cases "remote_destroyed s")
  case True
  then have "s' = emit EvDead s"
    using res by (simp add: connLocal_destroyed)
  then show ?thesis
    using none by (simp add: emit_def do_effect_def)
next
  case False
  show ?thesis
  proof (cases "connect_local rt opt")
    case (Inl e)
    then show ?thesis
      using res False by (simp add: connLocal_throws)
  next
    case (Inr tr)
    from connLocal_new_local [OF False Inr, of random]
    obtain t new where t: "connLocal rt opt random s = Inr t" "locals t = locals s @ [new]"
      "l_setTimeout new = (if session_connection opt then Some (actualTimeoutValue rt random) else None)"
      "l_timeout_once new = session_connection opt"
      by fastforce
    have "t = s'" using t(1) res by simp
    with t off have l: "locals s' = locals s @ [new]" "l_setTimeout new = None" "\<not> l_timeout_once new"
      by simp_all
    show ?thesis
    proof (intro allI impI)
      fix k
      assume "k < length (locals s')"
      then have "k < length (locals s) \<or> k = length (locals s)"
        using l(1) by auto
      then show "l_setTimeout (locals s' ! k) = None \<and> \<not> l_timeout_once (locals s' ! k)"
        using none l by (auto simp: nth_append)
    qed
  qed
qed

lemma step_no_idle_timer:
  assumes off: "\<not> session_connection opt"
    and none: "\<forall>k < length (locals s). l_setTimeout (locals s ! k) = None \<and> \<not> l_timeout_once (locals s ! k)"
    and st: "step rt opt s e = Inr s'"
  shows "\<forall>k < length (locals s'). l_setTimeout (locals s' ! k) = None \<and> \<not> l_timeout_once (locals s' ! k)"
proof -
  have by_frame: ?thesis if "frame s s'"
    using that none by (simp add: frame_def)
  show ?thesis
  proof (cases e)
    case (RemoteConnect r)
    show ?thesis
    proof (cases "remote_connect_once s \<and> \<not> remote_destroyed s")
      case True
      let ?s0 = "emit EvOpen (s \<lparr> remote_connect_once := False \<rparr>)"
      have "connLocal rt opt r ?s0 = Inr s'"
        using st RemoteConnect True by (simp add: remote_connect_handler_def)
      moreover have "\<forall>k < length (locals ?s0). l_setTimeout (locals ?s0 ! k) = None \<and>
          \<not> l_timeout_once (locals ?s0 ! k)"
        using none by (simp add: emit_def do_effect_def)
      ultimately show ?thesis
        using connLocal_no_idle_timer [OF off] by blast
    next
      case False
      then show ?thesis using st RemoteConnect none by auto
    qed
  next
    case (TimerFire i r)
    show ?thesis
    proof (cases "i < length (timers s) \<and> timers s ! i \<le> now s")
      case True
      let ?s0 = "s \<lparr> timers := take i (timers s) @ drop (Suc i) (timers s) \<rparr>"
      have "connLocal rt opt r ?s0 = Inr s'"
        using st TimerFire True by simp
      moreover have "\<forall>k < length (locals ?s0). l_setTimeout (locals ?s0 ! k) = None \<and>
          \<not> l_timeout_once (locals ?s0 ! k)"
        using none by simp
      ultimately show ?thesis
        using connLocal_no_idle_timer [OF off] by blast
    next
      case False
      then show ?thesis using st TimerFire none by auto
    qed
  next
    case (LocalError k code)
    show ?thesis
    proof (cases "local_alive k s \<and> l_error_once (locals s ! k)")
      case True
      then have "s' = local_error_handler k code
          (update_local k (\<lambda>l. l \<lparr> l_error_once := False \<rparr>) (destroy_local k s))"
        using st LocalError by simp
      moreover have "k < length (locals s)"
        using True by (simp add: local_alive_def)
      ultimately show ?thesis
        using none
        by (simp add: local_error_handler_fields update_local_def destroy_local_def
              nth_list_update)
    next
      case False
      then show ?thesis using st LocalError none by auto
    qed
  next
    case (Advance ms)
    then show ?thesis using st none by auto
  next
    case (RemoteData d)
    then show ?thesis using step_frame [OF st] by_frame by simp
  next
    case (RemoteError code)
    then show ?thesis using step_frame [OF st] by_frame by simp
  next
    case RemoteClose
    then show ?thesis using step_frame [OF st] by_frame by simp
  next
    case (LocalConnect k)
    then show ?thesis using step_frame [OF st] by_frame by simp
  next
    case (LocalTimeout k)
    then show ?thesis using step_frame [OF st] by_frame by simp
  next
    case (LocalData k d)
    then show ?thesis using step_frame [OF st] by_frame by simp
  next
    case (LocalClose k)
    then show ?thesis using step_frame [OF st] by_frame by simp
  qed
qed

lemma run_no_idle_timer:
  assumes "\<not> session_connection opt"
    and "\<forall>k < length (locals s). l_setTimeout (locals s ! k) = None \<and> \<not> l_timeout_once (locals s ! k)"
    and "run rt opt s es = Inr s'"
  shows "\<forall>k < length (locals s'). l_setTimeout (locals s' ! k) = None \<and> \<not> l_timeout_once (locals s' ! k)"
  using assms(2,3)
proof (induction es arbitrary: s)
  case Nil
  then show ?case by simp
next
  case (Cons e es)
  from Cons.prems(2) obtain t where t: "step rt opt s e = Inr t" "run rt opt t es = Inr s'"
    by (auto split: sum.splits)
  from step_no_idle_timer [OF assms(1) Cons.prems(1) t(1)]
  show ?case
    using Cons.IH t(2) by blast
qed

lemma session_no_idle_timer:
  assumes "\<not> session_connection opt" and "session rt opt es = Inr s"
  shows "(\<forall>k < length (locals s). l_setTimeout (locals s ! k) = None \<and> \<not> l_timeout_once (locals s ! k)) \<and>
         step rt opt s (LocalTimeout j) = Inr s"
proof -
  have i: "\<forall>k < length (locals (initial_state :: 'a state)).
      l_setTimeout (locals (initial_state :: 'a state) ! k) = None \<and>
      \<not> l_timeout_once (locals (initial_state :: 'a state) ! k)"
    by (simp add: initial_state_def)
  have r: "run rt opt initial_state es = Inr s"
    using assms(2) by (rule session_run)
  from run_no_idle_timer [OF assms(1) i r]
  have n: "\<forall>k < length (locals s). l_setTimeout (locals s ! k) = None \<and> \<not> l_timeout_once (locals s ! k)" .
  then have "step rt opt s (LocalTimeout j) = Inr s"
    by (auto simp: local_alive_def)
  with n show ?thesis by simp
qed

lemma actualTimeoutValue_draw:
  "actualTimeoutValue rt random = round_double rt (round_double rt (random * 50000) + 30000)"
  by (simp add: actualTimeoutValue_def)

lemma actualTimeoutValue_exact:
  assumes "\<forall>x. round_double rt x = x"
  shows "actualTimeoutValue rt random = 30000 + 50000 * random"
  using assms by (simp add: actualTimeoutValue_def)

lemma actualTimeoutValue_mono:
  assumes mono: "mono (round_double rt)" and le: "r1 \<le> r2"
  shows "actualTimeoutValue rt r1 \<le> actualTimeoutValue rt r2"
proof -
  let ?f = "round_double rt"
  have "r1 * 50000 \<le> r2 * 50000" using le by simp
  then have "?f (r1 * 50000) \<le> ?f (r2 * 50000)" by (rule monoD [OF mono])
  then have "?f (r1 * 50000) + 30000 \<le> ?f (r2 * 50000) + 30000" by simp
  then have "?f (?f (r1 * 50000) + 30000) \<le> ?f (?f (r2 * 50000) + 30000)"
    by (rule monoD [OF mono])
  then show ?thesis by (simp add: actualTimeoutValue_def)
qed

lemma actualTimeoutValue_uniform:
  assumes ex: "\<forall>x. round_double rt x = x" and a: "30000 \<le> a" and b: "b \<le> 80000"
  shows "(0 \<le> r \<and> r < 1 \<and> a \<le> actualTimeoutValue rt r \<and> actualTimeoutValue rt r < b) \<longleftrightarrow>
         ((a - 30000) / 50000 \<le> r \<and> r < (b - 30000) / 50000)"
proof -
  have v: "actualTimeoutValue rt r = 30000 + 50000 * r"
    by (rule actualTimeoutValue_exact [OF ex])
  have l: "(a - 30000) / 50000 \<le> r \<longleftrightarrow> a \<le> 30000 + 50000 * r"
    by (simp add: field_simps)
  have u: "r < (b - 30000) / 50000 \<longleftrightarrow> 30000 + 50000 * r < b"
    by (simp add: field_simps)
  show ?thesis
    unfolding v l u using a b by auto
qed

text \<open>
  C9. Let the rounding of the runtime be monotone and exact on 0, 30000, 50000 and 80000
  (as IEEE rounding is), and let \<open>Math.random()\<close> return \<open>random\<close> in \<open>[0, 1)\<close>.
  \<^item> A call of \<open>connLocal\<close> that creates a local socket, with \<open>session_connection\<close> set,
    registers the timeout listener and gives the socket the idle timeout
    \<open>random * 50000 + 30000\<close>, each operation rounded; it lies between 30000 and 80000 ms
    inclusive. Under exact arithmetic it is \<open>30000 + 50000 * random\<close>, below 80000.
    Without \<open>session_connection\<close> the call sets no timeout and registers no listener.
  \<^item> The timeout does not decrease when the number drawn increases.
  \<^item> Under exact arithmetic, for \<open>30000 \<le> a\<close> and \<open>b \<le> 80000\<close> the draws that give a timeout in
    \<open>[a, b)\<close> are those of the interval from \<open>(a - 30000) / 50000\<close> to
    \<open>(b - 30000) / 50000\<close>, whose length is proportional to \<open>b - a\<close>: a uniform draw gives a
    uniform timeout.
  \<^item> Without \<open>session_connection\<close>, in every state a session can reach no local socket has
    a timeout or a timeout listener, and a timeout event does nothing.
\<close>

theorem session_timer_range:
  assumes "mono (round_double rt)"
    and "round_double rt 0 = 0" and "round_double rt 30000 = 30000"
    and "round_double rt 50000 = 50000" and "round_double rt 80000 = 80000"
  shows "(0 \<le> random \<and> random < 1 \<and> \<not> remote_destroyed s \<and> connect_local rt opt = Inr tr \<longrightarrow>
           (\<exists>s'. connLocal rt opt random s = Inr s' \<and>
              length (locals s') = Suc (length (locals s)) \<and>
              (if session_connection opt
               then l_timeout_once (last (locals s')) \<and>
                    (\<exists>ms. l_setTimeout (last (locals s')) = Some ms \<and>
                       ms = round_double rt (round_double rt (random * 50000) + 30000) \<and>
                       30000 \<le> ms \<and> ms \<le> 80000 \<and>
                       ((\<forall>x. round_double rt x = x) \<longrightarrow>
                          ms = 30000 + 50000 * random \<and> ms < 80000))
               else \<not> l_timeout_once (last (locals s')) \<and> l_setTimeout (last (locals s')) = None))) \<and>
         (r1 \<le> r2 \<longrightarrow> actualTimeoutValue rt r1 \<le> actualTimeoutValue rt r2) \<and>
         ((\<forall>x. round_double rt x = x) \<and> 30000 \<le> a \<and> b \<le> 80000 \<longrightarrow>
            (\<forall>r. (0 \<le> r \<and> r < 1 \<and> a \<le> actualTimeoutValue rt r \<and> actualTimeoutValue rt r < b) \<longleftrightarrow>
                 ((a - 30000) / 50000 \<le> r \<and> r < (b - 30000) / 50000))) \<and>
         (\<not> session_connection opt \<and> session rt opt es = Inr t \<longrightarrow>
           (\<forall>k < length (locals t). l_setTimeout (locals t ! k) = None \<and> \<not> l_timeout_once (locals t ! k)) \<and>
           step rt opt t (LocalTimeout j) = Inr t)"
proof (intro conjI impI)
  assume a: "0 \<le> random \<and> random < 1 \<and> \<not> remote_destroyed s \<and> connect_local rt opt = Inr tr"
  then have nd: "\<not> remote_destroyed s" and cl: "connect_local rt opt = Inr tr"
    and r: "0 \<le> random" "random < 1"
    by simp_all
  from connLocal_new_local [OF nd cl, of random]
  obtain s' where s': "connLocal rt opt random s = Inr s'"
    and l: "locals s' = locals s @
             [\<lparr> l_transport = tr, l_host = localHost opt, l_port = local_port opt,
                l_ended = False, l_destroyed = False, l_error_once = True,
                l_setTimeout = (if session_connection opt
                                then Some (actualTimeoutValue rt random) else None),
                l_timeout_once = session_connection opt,
                l_connect_once = True, l_close_once = False,
                l_host_transform = None, l_timeoutInjector = None \<rparr>]"
    by blast
  let ?ms = "actualTimeoutValue rt random"
  have v: "?ms = round_double rt (round_double rt (random * 50000) + 30000)"
    by (rule actualTimeoutValue_draw)
  have bnd: "30000 \<le> ?ms" "?ms \<le> 80000"
    using actualTimeoutValue_bounds [OF assms r] by simp_all
  have ex: "(\<forall>x. round_double rt x = x) \<longrightarrow> ?ms = 30000 + 50000 * random \<and> ?ms < 80000"
  proof
    assume e: "\<forall>x. round_double rt x = x"
    have "?ms = 30000 + 50000 * random" by (rule actualTimeoutValue_exact [OF e])
    with r(2) show "?ms = 30000 + 50000 * random \<and> ?ms < 80000" by simp
  qed
  have ms: "\<exists>ms. Some ?ms = Some ms \<and>
      ms = round_double rt (round_double rt (random * 50000) + 30000) \<and>
      30000 \<le> ms \<and> ms \<le> 80000 \<and>
      ((\<forall>x. round_double rt x = x) \<longrightarrow> ms = 30000 + 50000 * random \<and> ms < 80000)"
    by (intro exI [of _ ?ms] conjI) (rule refl v bnd ex)+
  show "\<exists>s'. connLocal rt opt random s = Inr s' \<and>
              length (locals s') = Suc (length (locals s)) \<and>
              (if session_connection opt
               then l_timeout_once (last (locals s')) \<and>
                    (\<exists>ms. l_setTimeout (last (locals s')) = Some ms \<and>
                       ms = round_double rt (round_double rt (random * 50000) + 30000) \<and>
                       30000 \<le> ms \<and> ms \<le> 80000 \<and>
                       ((\<forall>x. round_double rt x = x) \<longrightarrow>
                          ms = 30000 + 50000 * random \<and> ms < 80000))
               else \<not> l_timeout_once (last (locals s')) \<and> l_setTimeout (last (locals s')) = None)"
  proof (cases "session_connection opt")
    case True
    with l have "l_timeout_once (last (locals s'))" "l_setTimeout (last (locals s')) = Some ?ms"
      "length (locals s') = Suc (length (locals s))"
      by simp_all
    with s' ms True show ?thesis by auto
  next
    case False
    with l have "\<not> l_timeout_once (last (locals s'))" "l_setTimeout (last (locals s')) = None"
      "length (locals s') = Suc (length (locals s))"
      by simp_all
    with s' False show ?thesis by auto
  qed
next
  assume "r1 \<le> r2"
  then show "actualTimeoutValue rt r1 \<le> actualTimeoutValue rt r2"
    by (rule actualTimeoutValue_mono [OF assms(1)])
next
  assume "(\<forall>x. round_double rt x = x) \<and> 30000 \<le> a \<and> b \<le> 80000"
  then have e: "\<forall>x. round_double rt x = x" and ab: "30000 \<le> a" "b \<le> 80000"
    by simp_all
  show "\<forall>r. (0 \<le> r \<and> r < 1 \<and> a \<le> actualTimeoutValue rt r \<and> actualTimeoutValue rt r < b) \<longleftrightarrow>
                 ((a - 30000) / 50000 \<le> r \<and> r < (b - 30000) / 50000)"
    using actualTimeoutValue_uniform [OF e ab] by blast
next
  assume "\<not> session_connection opt \<and> session rt opt es = Inr t"
  then show "\<forall>k < length (locals t). l_setTimeout (locals t ! k) = None \<and> \<not> l_timeout_once (locals t ! k)"
    and "step rt opt t (LocalTimeout j) = Inr t"
    using session_no_idle_timer [of opt rt es t j] by simp_all
qed

theorem session_timer_range_witness:
  "(\<exists>s'. connLocal rt0 opts0 (1/2) initial_state = Inr s' \<and>
      length (locals s') = 1 \<and> l_timeout_once (last (locals s')) \<and>
      l_setTimeout (last (locals s')) = Some 55000) \<and>
   (\<exists>s'. connLocal rt0 (opts0 \<lparr> session_connection := False \<rparr>) (1/2) initial_state = Inr s' \<and>
      length (locals s') = 1 \<and> \<not> l_timeout_once (last (locals s')) \<and>
      l_setTimeout (last (locals s')) = None) \<and>
   actualTimeoutValue rt0 (1/4) \<le> actualTimeoutValue rt0 (1/2) \<and>
   (\<forall>r. (0 \<le> r \<and> r < 1 \<and> 40000 \<le> actualTimeoutValue rt0 r \<and> actualTimeoutValue rt0 r < 50000) \<longleftrightarrow>
        (1/5 \<le> r \<and> r < 2/5)) \<and>
   (\<exists>t. session rt0 (opts0 \<lparr> session_connection := False \<rparr>) [RemoteConnect (1/2), LocalConnect 0] = Inr t \<and>
      step rt0 (opts0 \<lparr> session_connection := False \<rparr>) t (LocalTimeout 0) = Inr t)"
proof -
  let ?off = "opts0 \<lparr> session_connection := False \<rparr>"
  have m: "mono (round_double rt0)" by (simp add: rt0_def mono_def)
  have e: "round_double rt0 0 = 0" "round_double rt0 30000 = 30000"
    "round_double rt0 50000 = 50000" "round_double rt0 80000 = 80000"
    by (simp_all add: rt0_def)
  have x: "\<forall>x. round_double rt0 x = x" by (simp add: rt0_def)
  have d: "\<not> remote_destroyed (initial_state :: string state)"
    by (simp add: initial_state_def)
  have c: "(0::real) \<le> 1/2 \<and> (1/2::real) < 1 \<and> \<not> remote_destroyed (initial_state :: string state) \<and>
      connect_local rt0 opts0 = Inr NetConnect"
    "(0::real) \<le> 1/2 \<and> (1/2::real) < 1 \<and> \<not> remote_destroyed (initial_state :: string state) \<and>
      connect_local rt0 ?off = Inr NetConnect"
    using d by (simp_all add: connect_local_def check_port_def opts0_def)
  have s: "session_connection opts0" "\<not> session_connection ?off"
    by (simp_all add: opts0_def)
  have n: "length (locals (initial_state :: string state)) = 0"
    by (simp add: initial_state_def)
  from session_timer_range [OF m e, where random = "1/2" and s = "initial_state :: string state"
      and opt = opts0 and tr = NetConnect, THEN conjunct1, THEN mp, OF c(1)]
  obtain s1 where s1: "connLocal rt0 opts0 (1/2) initial_state = Inr s1"
    "length (locals s1) = Suc (length (locals (initial_state :: string state)))"
    "if session_connection opts0
     then l_timeout_once (last (locals s1)) \<and>
          (\<exists>ms. l_setTimeout (last (locals s1)) = Some ms \<and>
             ms = round_double rt0 (round_double rt0 (1/2 * 50000) + 30000) \<and>
             30000 \<le> ms \<and> ms \<le> 80000 \<and>
             ((\<forall>x. round_double rt0 x = x) \<longrightarrow> ms = 30000 + 50000 * (1/2) \<and> ms < 80000))
     else \<not> l_timeout_once (last (locals s1)) \<and> l_setTimeout (last (locals s1)) = None"
    by (elim exE conjE)
  from s1(3) s(1) x obtain ms where ms: "l_timeout_once (last (locals s1))"
    "l_setTimeout (last (locals s1)) = Some ms" "ms = 30000 + 50000 * (1/2)"
    by auto
  from ms(2,3) have "l_setTimeout (last (locals s1)) = Some 55000" by simp
  with s1(1,2) ms(1) n
  have A: "\<exists>s'. connLocal rt0 opts0 (1/2) initial_state = Inr s' \<and>
      length (locals s') = 1 \<and> l_timeout_once (last (locals s')) \<and>
      l_setTimeout (last (locals s')) = Some 55000"
    by (intro exI [of _ s1]) simp
  from session_timer_range [OF m e, where random = "1/2" and s = "initial_state :: string state"
      and opt = ?off and tr = NetConnect, THEN conjunct1, THEN mp, OF c(2)]
  obtain s2 where s2: "connLocal rt0 ?off (1/2) initial_state = Inr s2"
    "length (locals s2) = Suc (length (locals (initial_state :: string state)))"
    "if session_connection ?off
     then l_timeout_once (last (locals s2)) \<and>
          (\<exists>ms. l_setTimeout (last (locals s2)) = Some ms \<and>
             ms = round_double rt0 (round_double rt0 (1/2 * 50000) + 30000) \<and>
             30000 \<le> ms \<and> ms \<le> 80000 \<and>
             ((\<forall>x. round_double rt0 x = x) \<longrightarrow> ms = 30000 + 50000 * (1/2) \<and> ms < 80000))
     else \<not> l_timeout_once (last (locals s2)) \<and> l_setTimeout (last (locals s2)) = None"
    by (elim exE conjE)
  from s2(3) s(2) have "\<not> l_timeout_once (last (locals s2))" "l_setTimeout (last (locals s2)) = None"
    by simp_all
  with s2(1,2) n
  have B: "\<exists>s'. connLocal rt0 ?off (1/2) initial_state = Inr s' \<and>
      length (locals s') = 1 \<and> \<not> l_timeout_once (last (locals s')) \<and>
      l_setTimeout (last (locals s')) = None"
    by (intro exI [of _ s2]) simp
  have q: "(1/4 :: real) \<le> 1/2" by simp
  have M: "actualTimeoutValue rt0 (1/4) \<le> actualTimeoutValue rt0 (1/2)"
    using session_timer_range [OF m e, where ?r1.0 = "1/4" and ?r2.0 = "1/2",
        THEN conjunct2, THEN conjunct1, THEN mp, OF q] .
  have ab: "(\<forall>x. round_double rt0 x = x) \<and> (30000 :: real) \<le> 40000 \<and> (50000 :: real) \<le> 80000"
    using x by simp
  from session_timer_range [OF m e, where a = 40000 and b = 50000,
        THEN conjunct2, THEN conjunct2, THEN conjunct1, THEN mp, OF ab]
  have U: "\<forall>r. (0 \<le> r \<and> r < 1 \<and> 40000 \<le> actualTimeoutValue rt0 r \<and> actualTimeoutValue rt0 r < 50000) \<longleftrightarrow>
        (1/5 \<le> r \<and> r < 2/5)"
    by simp
  obtain t where t: "session rt0 ?off [RemoteConnect (1/2), LocalConnect 0] = Inr t"
    by (simp add: eval_defs opts0_def rt0_def)
  from s(2) t have o: "\<not> session_connection ?off \<and>
      session rt0 ?off [RemoteConnect (1/2), LocalConnect 0] = Inr t"
    by simp
  have "step rt0 ?off t (LocalTimeout 0) = Inr t"
    using session_timer_range [OF m e, where opt = ?off and t = t and j = 0
        and es = "[RemoteConnect (1/2), LocalConnect 0]",
        THEN conjunct2, THEN conjunct2, THEN conjunct2, THEN mp, OF o]
    by (elim conjE)
  with t have C: "\<exists>t. session rt0 ?off [RemoteConnect (1/2), LocalConnect 0] = Inr t \<and>
      step rt0 ?off t (LocalTimeout 0) = Inr t"
    by blast
  from A B M U C show ?thesis by (intro conjI)
qed

section \<open>Teardown on idle timeout and on the 408 signal\<close>

lemma emitted_of_append: "emitted_of (xs @ ys) = emitted_of xs @ emitted_of ys"
  by (induction xs rule: emitted_of.induct) simp_all

lemma teardown_fields:
  "trace (remoteClose k (remote_end (remote_removeListener k s))) =
     trace s @ [RemoteRemoveListener k, RemoteEnd, Emit EvDead, LocalEnd k]"
  "close_listeners (remoteClose k (remote_end (remote_removeListener k s))) =
     remove_last k (close_listeners s)"
  "remote_ended (remoteClose k (remote_end (remote_removeListener k s)))"
  "remote_closed (remoteClose k (remote_end (remote_removeListener k s))) = remote_closed s"
  by (simp_all add: op_defs)

lemma inv_alive_is_last:
  assumes "pairing_inv s" and "local_alive k s"
  shows "Suc k = length (locals s)" and "timers s = []"
proof -
  have k: "k < length (locals s)" "\<not> l_destroyed (locals s ! k)"
    using assms(2) by (simp_all add: local_alive_def)
  have "\<not> (Suc k < length (locals s) \<or> timers s \<noteq> [])"
    using assms(1) k by (auto simp: pairing_inv_def)
  then show "Suc k = length (locals s)" and "timers s = []"
    using k(1) by auto
qed

lemma inv_remove_listener:
  assumes "pairing_inv s" and "Suc k = length (locals s)"
  shows "remove_last k (close_listeners s) = []"
proof -
  have sub: "set (close_listeners s) \<subseteq> {k}"
    using assms by (auto simp: pairing_inv_def)
  have "distinct (close_listeners s)"
    using assms(1) by (simp add: pairing_inv_def)
  then have "k \<notin> set (remove_last k (close_listeners s))"
    by (rule remove_last_absent)
  with sub set_remove_last [of k "close_listeners s"]
  have "x \<notin> set (remove_last k (close_listeners s))" for x by blast
  then show ?thesis
    by (cases "remove_last k (close_listeners s)") auto
qed

lemma close_without_listeners:
  assumes "close_listeners s = []"
  shows "\<exists>s'. step rt opt s RemoteClose = Inr s' \<and> trace s' = trace s"
  using assms by (simp add: remote_close_event_def)

lemma timeout_step_teardown:
  assumes inv: "pairing_inv s" and alive: "local_alive k s"
    and armed: "l_timeout_once (locals s ! k)" and idle: "\<not> connecting s"
  shows "\<exists>s'. step rt opt s (LocalTimeout k) = Inr s' \<and>
           trace s' = trace s @ [RemoteRemoveListener k, RemoteEnd, Emit EvDead, LocalEnd k] \<and>
           close_listeners s' = [] \<and> remote_ended s'"
proof -
  let ?s0 = "update_local k (\<lambda>l. l \<lparr> l_timeout_once := False \<rparr>) s"
  have s0: "trace ?s0 = trace s" "close_listeners ?s0 = close_listeners s" "\<not> connecting ?s0"
    using idle by (simp_all add: update_local_def)
  have "step rt opt s (LocalTimeout k) = Inr (remoteClose k (remote_end (remote_removeListener k ?s0)))"
    using alive armed s0(3) by (simp add: local_timeout_handler_def)
  moreover have "remove_last k (close_listeners s) = []"
    using inv_remove_listener [OF inv inv_alive_is_last(1) [OF inv alive]] .
  ultimately show ?thesis
    using s0 by (simp add: teardown_fields)
qed

lemma fold_single_callback: "fold onTimeout_callback [k] s = onTimeout_callback k s"
  by simp

lemma signal_step_teardown:
  assumes inv: "pairing_inv s" and alive: "local_alive k s"
    and armed: "l_timeoutInjector (locals s ! k) = Some injector" "emitter injector = [k]"
    and marker: "has_marker (toString rt) data" and idle: "\<not> connecting s"
  shows "\<exists>s'. step rt opt s (LocalData k data) = Inr s' \<and>
           trace s' = trace s @ [RemoteRemoveListener k, RemoteEnd, Emit EvDead, LocalEnd k,
                                 RemoteWrite data] \<and>
           close_listeners s' = [] \<and> remote_ended s'"
proof -
  let ?r = "transform' (toString rt) data injector"
  let ?s0 = "update_local k (\<lambda>l. l \<lparr> l_timeoutInjector := Some (instance_after ?r) \<rparr>) s"
  have r: "invoked ?r = [k]" "pushed ?r = data"
    using armed(2) marker by (simp_all add: transform_invoked transform_pushed)
  have s0: "trace ?s0 = trace s" "close_listeners ?s0 = close_listeners s" "\<not> connecting ?s0"
    using idle by (simp_all add: update_local_def)
  have "step rt opt s (LocalData k data) =
      Inr (do_effect (RemoteWrite data) (remoteClose k (remote_end (remote_removeListener k ?s0))))"
    using alive armed(1) r s0(3)
    by (simp add: local_data_event_def Let_def onTimeout_callback_def)
  moreover have "remove_last k (close_listeners s) = []"
    using inv_remove_listener [OF inv inv_alive_is_last(1) [OF inv alive]] .
  ultimately show ?thesis
    using s0 by (simp add: teardown_fields do_effect_def)
qed

lemma timeout_step_ignored:
  assumes "connecting s"
  shows "\<exists>s'. step rt opt s (LocalTimeout k) = Inr s' \<and> trace s' = trace s \<and>
           close_listeners s' = close_listeners s \<and> remote_ended s' = remote_ended s \<and>
           connecting s'"
  using assms by (simp add: local_timeout_handler_def update_local_def)

lemma fold_callbacks_ignored:
  "connecting s \<Longrightarrow> fold onTimeout_callback ks s = s"
  by (induction ks) (simp_all add: onTimeout_callback_def)

lemma signal_step_ignored:
  assumes "connecting s"
  shows "\<exists>s'. step rt opt s (LocalData k data) = Inr s' \<and>
           (trace s' = trace s \<or> trace s' = trace s @ [RemoteWrite data]) \<and>
           close_listeners s' = close_listeners s \<and> remote_ended s' = remote_ended s \<and>
           connecting s'"
proof (cases "local_alive k s")
  case False
  then show ?thesis using assms by simp
next
  case True
  show ?thesis
  proof (cases "l_timeoutInjector (locals s ! k)")
    case None
    then show ?thesis using True assms by (simp add: local_data_event_def)
  next
    case (Some injector)
    let ?r = "transform' (toString rt) data injector"
    let ?s0 = "update_local k (\<lambda>l. l \<lparr> l_timeoutInjector := Some (instance_after ?r) \<rparr>) s"
    have "connecting ?s0" using assms by (simp add: update_local_def)
    then have "fold onTimeout_callback (invoked ?r) ?s0 = ?s0"
      by (rule fold_callbacks_ignored)
    then show ?thesis
      using True Some assms
      by (simp add: local_data_event_def Let_def transform_pushed do_effect_def update_local_def)
  qed
qed

text \<open>
  C3. In a state that a session can reach, for a local socket that is not destroyed: when
  its idle timeout fires, or a chunk carrying the marker passes its sentinel while the
  callback is still registered, and \<open>connecting\<close> is false, the program removes the
  socket's close listener from the remote, then ends the remote, then emits \<open>dead\<close>, once
  (and then ends the local socket, as \<open>remoteClose\<close> does; the chunk is written on after
  the callback returns). No close listener is left, so the close of the remote that
  follows emits nothing more. When \<open>connecting\<close> is true, the timeout does nothing at all,
  and the chunk is only passed on: no listener is removed, the remote is not ended, nothing
  is emitted.
\<close>

theorem timeout_teardown_sequence:
  assumes "session rt opt es = Inr s" and "local_alive k s"
  shows "(l_timeout_once (locals s ! k) \<and> \<not> connecting s \<longrightarrow>
            (\<exists>s'. step rt opt s (LocalTimeout k) = Inr s' \<and>
               trace s' = trace s @ [RemoteRemoveListener k, RemoteEnd, Emit EvDead, LocalEnd k] \<and>
               (\<exists>s''. step rt opt s' RemoteClose = Inr s'' \<and> trace s'' = trace s'))) \<and>
         (l_timeoutInjector (locals s ! k) = Some injector \<and> emitter injector = [k] \<and>
          has_marker (toString rt) data \<and> \<not> connecting s \<longrightarrow>
            (\<exists>s'. step rt opt s (LocalData k data) = Inr s' \<and>
               trace s' = trace s @ [RemoteRemoveListener k, RemoteEnd, Emit EvDead, LocalEnd k,
                                     RemoteWrite data] \<and>
               (\<exists>s''. step rt opt s' RemoteClose = Inr s'' \<and> trace s'' = trace s'))) \<and>
         (connecting s \<longrightarrow>
            (\<exists>s'. step rt opt s (LocalTimeout k) = Inr s' \<and> trace s' = trace s \<and>
               close_listeners s' = close_listeners s \<and> remote_ended s' = remote_ended s) \<and>
            (\<exists>s'. step rt opt s (LocalData k data) = Inr s' \<and>
               emitted_of (trace s') = emitted_of (trace s) \<and>
               close_listeners s' = close_listeners s \<and> remote_ended s' = remote_ended s))"
proof (intro conjI impI)
  have inv: "pairing_inv s" using assms(1) by (rule session_inv)
  {
    assume "l_timeout_once (locals s ! k) \<and> \<not> connecting s"
    then obtain s' where s': "step rt opt s (LocalTimeout k) = Inr s'"
      "trace s' = trace s @ [RemoteRemoveListener k, RemoteEnd, Emit EvDead, LocalEnd k]"
      "close_listeners s' = []"
      using timeout_step_teardown [OF inv assms(2), of rt opt] by blast
    with close_without_listeners [OF s'(3), of rt opt]
    show "\<exists>s'. step rt opt s (LocalTimeout k) = Inr s' \<and>
               trace s' = trace s @ [RemoteRemoveListener k, RemoteEnd, Emit EvDead, LocalEnd k] \<and>
               (\<exists>s''. step rt opt s' RemoteClose = Inr s'' \<and> trace s'' = trace s')"
      by blast
  }
  {
    assume "l_timeoutInjector (locals s ! k) = Some injector \<and> emitter injector = [k] \<and>
          has_marker (toString rt) data \<and> \<not> connecting s"
    then obtain s' where s': "step rt opt s (LocalData k data) = Inr s'"
      "trace s' = trace s @ [RemoteRemoveListener k, RemoteEnd, Emit EvDead, LocalEnd k,
                                     RemoteWrite data]"
      "close_listeners s' = []"
      using signal_step_teardown [OF inv assms(2), of injector rt data opt] by blast
    with close_without_listeners [OF s'(3), of rt opt]
    show "\<exists>s'. step rt opt s (LocalData k data) = Inr s' \<and>
               trace s' = trace s @ [RemoteRemoveListener k, RemoteEnd, Emit EvDead, LocalEnd k,
                                     RemoteWrite data] \<and>
               (\<exists>s''. step rt opt s' RemoteClose = Inr s'' \<and> trace s'' = trace s')"
      by blast
  }
  {
    assume c: "connecting s"
    from timeout_step_ignored [OF c, of rt opt k]
    show "\<exists>s'. step rt opt s (LocalTimeout k) = Inr s' \<and> trace s' = trace s \<and>
               close_listeners s' = close_listeners s \<and> remote_ended s' = remote_ended s"
      by blast
    from signal_step_ignored [OF c, of rt opt k data]
    obtain s' where "step rt opt s (LocalData k data) = Inr s'"
      "trace s' = trace s \<or> trace s' = trace s @ [RemoteWrite data]"
      "close_listeners s' = close_listeners s" "remote_ended s' = remote_ended s"
      by blast
    moreover from this(2) have "emitted_of (trace s') = emitted_of (trace s)"
      by (auto simp: emitted_of_append)
    ultimately
    show "\<exists>s'. step rt opt s (LocalData k data) = Inr s' \<and>
               emitted_of (trace s') = emitted_of (trace s) \<and>
               close_listeners s' = close_listeners s \<and> remote_ended s' = remote_ended s"
      by blast
  }
qed

theorem timeout_teardown_sequence_witness:
  "(\<exists>s s' s''. session rt0 opts0 [RemoteConnect (1/2), LocalConnect 0] = Inr s \<and>
      step rt0 opts0 s (LocalTimeout 0) = Inr s' \<and>
      trace s' = trace s @ [RemoteRemoveListener 0, RemoteEnd, Emit EvDead, LocalEnd 0] \<and>
      step rt0 opts0 s' RemoteClose = Inr s'' \<and> trace s'' = trace s') \<and>
   (\<exists>s s'. session rt0 opts0 [RemoteConnect (1/2), LocalConnect 0] = Inr s \<and>
      step rt0 opts0 s (LocalData 0 ''HTTP/1.1 408 Request Timeout'') = Inr s' \<and>
      trace s' = trace s @ [RemoteRemoveListener 0, RemoteEnd, Emit EvDead, LocalEnd 0,
                            RemoteWrite ''HTTP/1.1 408 Request Timeout'']) \<and>
   (\<exists>s s'. session rt0 opts0 [RemoteConnect (1/2), LocalConnect 0, RemoteData ''GET / HTTP/1.1''] = Inr s \<and>
      step rt0 opts0 s (LocalTimeout 0) = Inr s' \<and> trace s' = trace s)"
proof -
  obtain s where s: "session rt0 opts0 [RemoteConnect (1/2), LocalConnect 0] = Inr s"
    "local_alive 0 s" "l_timeout_once (locals s ! 0)" "\<not> connecting s"
    "l_timeoutInjector (locals s ! 0) = Some \<lparr> emitter = [0] \<rparr>"
    by (simp add: eval_defs opts0_def rt0_def)
  have m: "has_marker (toString rt0) ''HTTP/1.1 408 Request Timeout''"
    by (simp add: has_marker_def timeout_marker_def js_def rt0_def)
  obtain t where t: "session rt0 opts0 [RemoteConnect (1/2), LocalConnect 0, RemoteData ''GET / HTTP/1.1''] = Inr t"
    "local_alive 0 t" "connecting t"
    by (simp add: eval_defs opts0_def rt0_def split: option.splits)
  have e: "emitter \<lparr> emitter = [0::nat] \<rparr> = [0]" by simp
  have A: "\<exists>s' s''. step rt0 opts0 s (LocalTimeout 0) = Inr s' \<and>
      trace s' = trace s @ [RemoteRemoveListener 0, RemoteEnd, Emit EvDead, LocalEnd 0] \<and>
      step rt0 opts0 s' RemoteClose = Inr s'' \<and> trace s'' = trace s'"
    using timeout_teardown_sequence [OF s(1,2)] s(3,4) by blast
  have B: "\<exists>s'. step rt0 opts0 s (LocalData 0 ''HTTP/1.1 408 Request Timeout'') = Inr s' \<and>
      trace s' = trace s @ [RemoteRemoveListener 0, RemoteEnd, Emit EvDead, LocalEnd 0,
                            RemoteWrite ''HTTP/1.1 408 Request Timeout'']"
    using timeout_teardown_sequence [OF s(1,2), of "\<lparr> emitter = [0] \<rparr>" "''HTTP/1.1 408 Request Timeout''"]
      s(4,5) m e by blast
  have C: "\<exists>s'. step rt0 opts0 t (LocalTimeout 0) = Inr s' \<and> trace s' = trace t"
    using timeout_teardown_sequence [OF t(1,2)] t(3) by blast
  show ?thesis
    using A B C s(1) t(1) by blast
qed

section \<open>Errors of the local connection\<close>

lemma local_error_step:
  assumes inv: "pairing_inv s" and alive: "local_alive k s" and armed: "l_error_once (locals s ! k)"
  shows "\<exists>s'. step rt opt s (LocalError k code) = Inr s' \<and>
           trace s' = trace s @ [LocalEnd k, RemoteRemoveListener k] @
             (if code \<noteq> Some ''ECONNREFUSED'' \<and> code \<noteq> Some ''ECONNRESET''
              then [RemoteEnd] else [SetTimeout 1000]) \<and>
           timers s' = (if code \<noteq> Some ''ECONNREFUSED'' \<and> code \<noteq> Some ''ECONNRESET''
                        then [] else [now s + 1000]) \<and>
           remote_ended s' = (remote_ended s \<or>
              (code \<noteq> Some ''ECONNREFUSED'' \<and> code \<noteq> Some ''ECONNRESET'')) \<and>
           close_listeners s' = [] \<and>
           length (locals s') = length (locals s) \<and>
           l_ended (locals s' ! k) \<and> l_destroyed (locals s' ! k) \<and>
           remote_destroyed s' = remote_destroyed s \<and> now s' = now s \<and>
           connecting s' = connecting s"
proof -
  let ?s0 = "update_local k (\<lambda>l. l \<lparr> l_error_once := False \<rparr>) (destroy_local k s)"
  have st: "step rt opt s (LocalError k code) = Inr (local_error_handler k code ?s0)"
    using alive armed by simp
  have k: "k < length (locals s)" "Suc k = length (locals s)" "timers s = []"
    using alive inv_alive_is_last [OF inv alive] by (simp_all add: local_alive_def)
  have rl: "remove_last k (close_listeners s) = []"
    using inv_remove_listener [OF inv k(2)] .
  have s0: "trace ?s0 = trace s" "timers ?s0 = timers s" "close_listeners ?s0 = close_listeners s"
    "now ?s0 = now s" "remote_ended ?s0 = remote_ended s" "remote_destroyed ?s0 = remote_destroyed s"
    "connecting ?s0 = connecting s" "length (locals ?s0) = length (locals s)"
    by (simp_all add: update_local_def destroy_local_def)
  have tr: "trace (local_error_handler k code ?s0) = trace ?s0 @ [LocalEnd k, RemoteRemoveListener k] @
             (if code \<noteq> Some ''ECONNREFUSED'' \<and> code \<noteq> Some ''ECONNRESET''
              then [RemoteEnd] else [SetTimeout 1000])"
    and re: "remote_ended (local_error_handler k code ?s0) = (remote_ended ?s0 \<or>
              (code \<noteq> Some ''ECONNREFUSED'' \<and> code \<noteq> Some ''ECONNRESET''))"
    by (simp_all add: local_error_handler_def Let_def op_defs)
  have fl: "l_ended (locals (local_error_handler k code ?s0) ! k)"
    "l_destroyed (locals (local_error_handler k code ?s0) ! k)"
    using k(1) by (simp_all add: local_error_handler_fields update_local_def destroy_local_def)
  show ?thesis
    using st tr re fl s0 k(3) rl by (simp add: local_error_handler_fields)
qed

text \<open>
  C1, as stated, fails: the handler removes the pairing's close listener before it ends the
  remote, so nothing emits \<open>dead\<close>. Remote connects, the local connection fails with
  \<open>EHOSTUNREACH\<close>, the remote closes: the caller has seen \<open>open\<close> and nothing else.
\<close>

theorem local_fatal_error_no_dead_counterexample:
  "caller_saw (session rt0 opts0
      [RemoteConnect (1/2), LocalError 0 (Some ''EHOSTUNREACH''), RemoteClose]) = [EvOpen]"
  by (simp add: caller_saw_def eval_defs opts0_def rt0_def)

text \<open>
  C1, amended. In a state that a session can reach, an error on a live local socket with a
  code other than \<open>ECONNREFUSED\<close> and \<open>ECONNRESET\<close> makes the handler end the local socket,
  remove the pairing's close listener from the remote and end the remote, in this order,
  and nothing else: no retry timer is set, none is pending, nothing is emitted. No close
  listener is left, so the close of the remote that follows emits no \<open>dead\<close>.
\<close>

theorem local_fatal_error_teardown:
  assumes "session rt opt es = Inr s"
    and "local_alive k s" and "l_error_once (locals s ! k)"
    and "code \<noteq> Some ''ECONNREFUSED''" and "code \<noteq> Some ''ECONNRESET''"
  shows "\<exists>s'. step rt opt s (LocalError k code) = Inr s' \<and>
           trace s' = trace s @ [LocalEnd k, RemoteRemoveListener k, RemoteEnd] \<and>
           l_ended (locals s' ! k) \<and> remote_ended s' \<and> timers s' = [] \<and>
           close_listeners s' = [] \<and>
           (\<exists>s''. step rt opt s' RemoteClose = Inr s'' \<and> trace s'' = trace s')"
proof -
  have inv: "pairing_inv s" using assms(1) by (rule session_inv)
  from local_error_step [OF inv assms(2,3), of rt opt code]
  obtain s' where s': "step rt opt s (LocalError k code) = Inr s'"
    "trace s' = trace s @ [LocalEnd k, RemoteRemoveListener k, RemoteEnd]"
    "l_ended (locals s' ! k)" "remote_ended s'" "timers s' = []" "close_listeners s' = []"
    using assms(4,5) by auto
  with close_without_listeners [OF s'(6), of rt opt] show ?thesis
    by blast
qed

theorem local_fatal_error_teardown_witness:
  "\<exists>s s' s''. session rt0 opts0 [RemoteConnect (1/2)] = Inr s \<and>
      step rt0 opts0 s (LocalError 0 (Some ''EHOSTUNREACH'')) = Inr s' \<and>
      trace s' = trace s @ [LocalEnd 0, RemoteRemoveListener 0, RemoteEnd] \<and>
      timers s' = [] \<and> close_listeners s' = [] \<and>
      step rt0 opts0 s' RemoteClose = Inr s'' \<and> trace s'' = trace s'"
proof -
  obtain s where s: "session rt0 opts0 [RemoteConnect (1/2)] = Inr s"
    "local_alive 0 s" "l_error_once (locals s ! 0)"
    by (simp add: eval_defs opts0_def rt0_def)
  have c: "Some ''EHOSTUNREACH'' \<noteq> Some ''ECONNREFUSED''" "Some ''EHOSTUNREACH'' \<noteq> Some ''ECONNRESET''"
    by simp_all
  show ?thesis
    using local_fatal_error_teardown [OF s c] s(1) by blast
qed

section \<open>Retrying the local connection\<close>

lemma run_append:
  "run rt opt s (es @ fs) = (case run rt opt s es of Inl x \<Rightarrow> Inl x | Inr s' \<Rightarrow> run rt opt s' fs)"
  by (induction es arbitrary: s) (simp_all split: sum.splits)

lemma session_append:
  "session rt opt (es @ fs) =
     (case session rt opt es of Inl x \<Rightarrow> Inl x | Inr s \<Rightarrow> run rt opt s fs)"
  by (simp add: session_def run_append split: sum.splits)

lemma session_snoc:
  "session rt opt es = Inr s \<Longrightarrow> session rt opt (es @ [e]) = step rt opt s e"
  by (simp add: session_append split: sum.splits)

lemma inv_single_timer:
  assumes "pairing_inv s" and "i < length (timers s)"
  shows "i = 0" and "timers s = [timers s ! 0]" and "close_listeners s = []"
    and "\<forall>k < length (locals s). \<not> l_error_once (locals s ! k) \<and> l_destroyed (locals s ! k)"
proof -
  have one: "length (timers s) = 1"
    using assms by (auto simp: pairing_inv_def)
  then show "i = 0" using assms(2) by simp
  from one show "timers s = [timers s ! 0]"
    by (cases "timers s") auto
  from one have ne: "timers s \<noteq> []" by auto
  show q: "\<forall>k < length (locals s). \<not> l_error_once (locals s ! k) \<and> l_destroyed (locals s ! k)"
    using assms(1) ne by (auto simp: pairing_inv_def)
  then show "close_listeners s = []"
    using inv_no_listener_without_pairing [OF assms(1)] by simp
qed

lemma timer_step:
  assumes inv: "pairing_inv s" and i: "i < length (timers s)"
  shows "(now s < timers s ! i \<longrightarrow> step rt opt s (TimerFire i random) = Inr s) \<and>
         (timers s ! i \<le> now s \<and> remote_destroyed s \<longrightarrow>
            (\<exists>s'. step rt opt s (TimerFire i random) = Inr s' \<and>
               trace s' = trace s @ [Emit EvDead] \<and> locals s' = locals s \<and> timers s' = [])) \<and>
         (timers s ! i \<le> now s \<and> \<not> remote_destroyed s \<and> connect_local rt opt = Inr tr \<longrightarrow>
            (\<exists>s'. step rt opt s (TimerFire i random) = Inr s' \<and>
               trace s' = trace s @ [RemotePause, RemoteOnceClose (length (locals s))] \<and>
               length (locals s') = Suc (length (locals s)) \<and> timers s' = [] \<and>
               local_alive (length (locals s)) s' \<and>
               l_error_once (locals s' ! length (locals s)) \<and>
               remote_destroyed s' = remote_destroyed s \<and> now s' = now s))"
proof -
  let ?s0 = "s \<lparr> timers := take i (timers s) @ drop (Suc i) (timers s) \<rparr>"
  have one: "i = 0" "timers s = [timers s ! 0]"
    using inv_single_timer [OF inv i] by simp_all
  have t0: "timers ?s0 = []"
    using one by (cases "timers s") auto
  have fire: "step rt opt s (TimerFire i random) = connLocal rt opt random ?s0"
    if "timers s ! i \<le> now s"
    using that i by simp
  have a: "step rt opt s (TimerFire i random) = Inr s" if "now s < timers s ! i"
    using that by simp
  have b: "\<exists>s'. step rt opt s (TimerFire i random) = Inr s' \<and>
               trace s' = trace s @ [Emit EvDead] \<and> locals s' = locals s \<and> timers s' = []"
    if "timers s ! i \<le> now s" "remote_destroyed s"
    using that fire t0 by (simp add: connLocal_destroyed emit_def do_effect_def)
  have c: "\<exists>s'. step rt opt s (TimerFire i random) = Inr s' \<and>
               trace s' = trace s @ [RemotePause, RemoteOnceClose (length (locals s))] \<and>
               length (locals s') = Suc (length (locals s)) \<and> timers s' = [] \<and>
               local_alive (length (locals s)) s' \<and>
               l_error_once (locals s' ! length (locals s)) \<and>
               remote_destroyed s' = remote_destroyed s \<and> now s' = now s"
    if "timers s ! i \<le> now s" "\<not> remote_destroyed s" "connect_local rt opt = Inr tr"
  proof -
    have nd: "\<not> remote_destroyed ?s0" using that(2) by simp
    from connLocal_new_local [OF nd that(3), of random]
    obtain s' new where s': "connLocal rt opt random ?s0 = Inr s'"
      "locals s' = locals s @ [new]" "l_error_once new" "\<not> l_destroyed new"
      "trace s' = trace s @ [RemotePause, RemoteOnceClose (length (locals s))]"
      "timers s' = []" "remote_destroyed s' = remote_destroyed s" "now s' = now s"
      using t0 by fastforce
    then show ?thesis
      using fire [OF that(1)] by (simp add: local_alive_def)
  qed
  from a b c show ?thesis by blast
qed

lemma refused_rounds_run:
  assumes "connect_local rt opt = Inr tr"
    and opened: "open' rt opt = Inr initial_state"
  shows "\<exists>s. session rt opt (RemoteConnect random # refused_rounds n) = Inr s \<and>
           length (locals s) = Suc n \<and> emitted_of (trace s) = [EvOpen] \<and>
           local_alive n s \<and> l_error_once (locals s ! n) \<and> \<not> remote_destroyed s"
proof (induction n)
  case 0
  have nd: "\<not> remote_destroyed (emit EvOpen (initial_state \<lparr> remote_connect_once := False \<rparr> :: 'a state))"
    by (simp add: emit_def do_effect_def initial_state_def)
  from connLocal_new_local [OF nd assms(1), of random]
  obtain s new where s: "connLocal rt opt random (emit EvOpen (initial_state \<lparr> remote_connect_once := False \<rparr>)) = Inr s"
    "locals s = [new]" "l_error_once new" "\<not> l_destroyed new"
    "trace s = [Emit EvOpen, RemotePause, RemoteOnceClose 0]" "\<not> remote_destroyed s"
    by (fastforce simp: emit_def do_effect_def initial_state_def)
  then have "session rt opt [RemoteConnect random] = Inr s"
    by (simp add: session_def opened remote_connect_handler_def initial_state_def)
  with s show ?case
    by (simp add: local_alive_def)
next
  case (Suc n)
  then obtain s where s: "session rt opt (RemoteConnect random # refused_rounds n) = Inr s"
    "length (locals s) = Suc n" "emitted_of (trace s) = [EvOpen]"
    "local_alive n s" "l_error_once (locals s ! n)" "\<not> remote_destroyed s"
    by blast
  have inv: "pairing_inv s" using s(1) by (rule session_inv)
  from local_error_step [OF inv s(4,5), of rt opt "Some ''ECONNREFUSED''"]
  obtain s1 where s1_step: "step rt opt s (LocalError n (Some ''ECONNREFUSED'')) = Inr s1"
    and s1_raw: "trace s1 = trace s @ [LocalEnd n, RemoteRemoveListener n] @
             (if Some ''ECONNREFUSED'' \<noteq> Some ''ECONNREFUSED'' \<and> Some ''ECONNREFUSED'' \<noteq> Some ''ECONNRESET''
              then [RemoteEnd] else [SetTimeout 1000])"
      "timers s1 = (if Some ''ECONNREFUSED'' \<noteq> Some ''ECONNREFUSED'' \<and> Some ''ECONNREFUSED'' \<noteq> Some ''ECONNRESET''
                        then [] else [now s + 1000])"
      "length (locals s1) = length (locals s)"
      "remote_destroyed s1 = remote_destroyed s" "now s1 = now s"
    by blast
  from s1_raw have s1_facts: "trace s1 = trace s @ [LocalEnd n, RemoteRemoveListener n, SetTimeout 1000]"
    "timers s1 = [now s + 1000]" "length (locals s1) = length (locals s)"
    "remote_destroyed s1 = remote_destroyed s" "now s1 = now s"
    by simp_all
  note s1 = s1_step s1_facts
  have inv1: "pairing_inv s1" using step_inv [OF inv s1(1)] .
  let ?s2 = "s1 \<lparr> now := now s1 + 1000 \<rparr>"
  have s2: "step rt opt s1 (Advance 1000) = Inr ?s2" by simp
  have inv2: "pairing_inv ?s2" using step_inv [OF inv1 s2] .
  have due: "0 < length (timers ?s2)" "timers ?s2 ! 0 \<le> now ?s2" "\<not> remote_destroyed ?s2"
    using s1 s(6) by simp_all
  from timer_step [OF inv2 due(1), of rt opt 0 tr] due(2,3) assms
  obtain s3 where s3: "step rt opt ?s2 (TimerFire 0 0) = Inr s3"
    "trace s3 = trace ?s2 @ [RemotePause, RemoteOnceClose (length (locals ?s2))]"
    "length (locals s3) = Suc (length (locals ?s2))"
    "local_alive (length (locals ?s2)) s3" "l_error_once (locals s3 ! length (locals ?s2))"
    "remote_destroyed s3 = remote_destroyed ?s2"
    by blast
  have "session rt opt (RemoteConnect random # refused_rounds (Suc n)) =
      run rt opt s [LocalError n (Some ''ECONNREFUSED''), Advance 1000, TimerFire 0 0]"
    using s(1) session_append [of rt opt "RemoteConnect random # refused_rounds n"]
    by simp
  also have "\<dots> = Inr s3"
    using s1(1) s3(1) by simp
  finally show ?case
    using s3 s1 s by (simp add: emitted_of_append)
qed

lemma waiting_emits_no_dead:
  assumes inv: "pairing_inv s" and pending: "timers s \<noteq> []"
    and other: "\<And>j r. e \<noteq> TimerFire j r"
  shows "\<exists>s' evs.
           (step rt opt s e = Inr s' \<or>
            step rt opt s e = Inl (Unhandled_error (refused_message opt), s') \<and>
            e = RemoteError (Some ''ECONNREFUSED'') \<and> \<not> caller_listens_error rt) \<and>
           emitted_of (trace s') = emitted_of (trace s) @ evs \<and> EvDead \<notin> set evs"
proof -
  have i: "0 < length (timers s)" using pending by simp
  have quiet: "close_listeners s = []"
    "\<forall>k < length (locals s). \<not> l_error_once (locals s ! k) \<and> l_destroyed (locals s ! k)"
    using inv_single_timer [OF inv i] by simp_all
  have dead: "\<not> local_alive k s" for k
    using quiet(2) by (auto simp: local_alive_def)
  have nc: "\<not> remote_connect_once s"
    using inv pending by (auto simp: pairing_inv_def)
  have same: "\<exists>s' evs.
           (step rt opt s e = Inr s' \<or>
            step rt opt s e = Inl (Unhandled_error (refused_message opt), s') \<and>
            e = RemoteError (Some ''ECONNREFUSED'') \<and> \<not> caller_listens_error rt) \<and>
           emitted_of (trace s') = emitted_of (trace s) @ evs \<and> EvDead \<notin> set evs"
    if "step rt opt s e = Inr s'" "emitted_of (trace s') = emitted_of (trace s) @ evs"
      "EvDead \<notin> set evs" for s' evs
    using that by blast
  have thrown: "\<exists>s' evs.
           (step rt opt s e = Inr s' \<or>
            step rt opt s e = Inl (Unhandled_error (refused_message opt), s') \<and>
            e = RemoteError (Some ''ECONNREFUSED'') \<and> \<not> caller_listens_error rt) \<and>
           emitted_of (trace s') = emitted_of (trace s) @ evs \<and> EvDead \<notin> set evs"
    if "step rt opt s e = Inl (Unhandled_error (refused_message opt), s')"
      "e = RemoteError (Some ''ECONNREFUSED'')" "\<not> caller_listens_error rt"
      "emitted_of (trace s') = emitted_of (trace s) @ evs" "EvDead \<notin> set evs" for s' evs
    using that by blast
  show ?thesis
  proof (cases e)
    case (RemoteConnect r)
    show ?thesis
      by (rule same [of s "[]"]) (simp_all add: RemoteConnect nc)
  next
    case (RemoteData d)
    show ?thesis
    proof (cases "remote_destroyed s")
      case True
      show ?thesis
        by (rule same [of s "[]"]) (simp_all add: RemoteData True)
    next
      case False
      show ?thesis
      proof (cases "request_match (toString rt d)")
        case None
        show ?thesis
          by (rule same [of "remote_data_handler rt d s" "[]"])
             (simp_all add: RemoteData False None remote_data_handler_def)
      next
        case (Some mp)
        show ?thesis
          by (rule same [of "remote_data_handler rt d s" "[EvRequest (fst mp) (snd mp)]"])
             (simp_all add: RemoteData False Some remote_data_handler_def split_beta
                emit_def do_effect_def emitted_of_append)
      qed
    qed
  next
    case (RemoteError c)
    show ?thesis
    proof (cases "remote_destroyed s")
      case True
      show ?thesis
        by (rule same [of s "[]"]) (simp_all add: RemoteError True)
    next
      case False
      note alive = False
      show ?thesis
      proof (cases "c = Some ''ECONNREFUSED'' \<and> \<not> caller_listens_error rt")
        case True
        show ?thesis
          by (rule thrown [of "s \<lparr> remote_destroyed := True \<rparr>" "[]"])
             (simp_all add: RemoteError alive True remote_error_handler_def)
      next
        case False
        show ?thesis
          by (rule same [of "remote_end
                  (if c = Some ''ECONNREFUSED''
                   then emit (EvError (refused_message opt)) (s \<lparr> remote_destroyed := True \<rparr>)
                   else s \<lparr> remote_destroyed := True \<rparr>)"
                "if c = Some ''ECONNREFUSED'' then [EvError (refused_message opt)] else []"])
             (insert False, auto simp: RemoteError alive remote_error_handler_def op_defs
                emitted_of_append)
      qed
    qed
  next
    case RemoteClose
    show ?thesis
    proof (cases "remote_closed s")
      case True
      show ?thesis
        by (rule same [of s "[]"]) (simp_all add: RemoteClose True)
    next
      case False
      show ?thesis
        by (rule same [of "remote_close_event s" "[]"])
           (simp_all add: RemoteClose False remote_close_event_def quiet(1))
    qed
  next
    case (LocalConnect k)
    show ?thesis
      by (rule same [of s "[]"]) (simp_all add: LocalConnect dead)
  next
    case (LocalError k c)
    show ?thesis
      by (rule same [of s "[]"]) (simp_all add: LocalError dead)
  next
    case (LocalTimeout k)
    show ?thesis
      by (rule same [of s "[]"]) (simp_all add: LocalTimeout dead)
  next
    case (LocalData k d)
    show ?thesis
      by (rule same [of s "[]"]) (simp_all add: LocalData dead)
  next
    case (LocalClose k)
    show ?thesis
      by (rule same [of s "[]"]) (simp_all add: LocalClose dead)
  next
    case (TimerFire j r)
    with other show ?thesis by blast
  next
    case (Advance ms)
    show ?thesis
      by (rule same [of "s \<lparr> now := now s + ms \<rparr>" "[]"]) (simp_all add: Advance)
  qed
qed

text \<open>
  C5. In a state that a session can reach:
  \<^item> an error with code \<open>ECONNREFUSED\<close> or \<open>ECONNRESET\<close> on a live local socket makes the
    handler end that socket, remove its close listener and set one timer for \<open>connLocal\<close>
    with a delay of 1000 ms, which is then the only timer pending; it emits nothing and
    does not end the remote;
  \<^item> there is never more than one such timer;
  \<^item> a pending timer does nothing before it is due; when it runs with the remote not
    destroyed it creates the next local socket and emits nothing; when it runs with the
    remote destroyed it emits \<open>dead\<close>, creates no socket and sets no timer;
  \<^item> the number of retries has no bound: after \<open>n\<close> refused attempts in a row, for any
    \<open>n\<close>, attempt \<open>n + 1\<close> has been made and the caller has seen \<open>open\<close> only;
  \<^item> while a timer is pending, no event other than the timer makes the program emit
    \<open>dead\<close>: the handlers of such an event return, emitting no \<open>dead\<close>; the one exception
    to returning is a remote error \<open>ECONNREFUSED\<close> with no \<open>error\<close> listener on the
    TunnelCluster, which throws out of \<open>emit\<close>, no \<open>dead\<close> having been emitted either.
\<close>

theorem local_transient_error_retry:
  assumes "session rt opt es = Inr s"
  shows "(local_alive k s \<and> l_error_once (locals s ! k) \<and>
          (code = Some ''ECONNREFUSED'' \<or> code = Some ''ECONNRESET'') \<longrightarrow>
            (\<exists>s'. step rt opt s (LocalError k code) = Inr s' \<and>
               trace s' = trace s @ [LocalEnd k, RemoteRemoveListener k, SetTimeout 1000] \<and>
               timers s' = [now s + 1000] \<and> remote_ended s' = remote_ended s)) \<and>
         length (timers s) \<le> 1 \<and>
         (i < length (timers s) \<longrightarrow>
            (now s < timers s ! i \<longrightarrow> step rt opt s (TimerFire i random) = Inr s) \<and>
            (timers s ! i \<le> now s \<and> \<not> remote_destroyed s \<and> connect_local rt opt = Inr tr \<longrightarrow>
               (\<exists>s'. step rt opt s (TimerFire i random) = Inr s' \<and>
                  trace s' = trace s @ [RemotePause, RemoteOnceClose (length (locals s))] \<and>
                  length (locals s') = Suc (length (locals s)) \<and> timers s' = [])) \<and>
            (timers s ! i \<le> now s \<and> remote_destroyed s \<longrightarrow>
               (\<exists>s'. step rt opt s (TimerFire i random) = Inr s' \<and>
                  trace s' = trace s @ [Emit EvDead] \<and> locals s' = locals s \<and> timers s' = []))) \<and>
         (connect_local rt opt = Inr tr \<longrightarrow>
            (\<exists>t. session rt opt (RemoteConnect random # refused_rounds n) = Inr t \<and>
               length (locals t) = Suc n \<and> emitted_of (trace t) = [EvOpen])) \<and>
         (timers s \<noteq> [] \<and> (\<forall>j r. e \<noteq> TimerFire j r) \<longrightarrow>
            (\<exists>s' evs.
               (step rt opt s e = Inr s' \<or>
                step rt opt s e = Inl (Unhandled_error (refused_message opt), s') \<and>
                e = RemoteError (Some ''ECONNREFUSED'') \<and> \<not> caller_listens_error rt) \<and>
               emitted_of (trace s') = emitted_of (trace s) @ evs \<and> EvDead \<notin> set evs))"
proof -
  have inv: "pairing_inv s" using assms by (rule session_inv)
  have w: "\<exists>s' evs.
               (step rt opt s e = Inr s' \<or>
                step rt opt s e = Inl (Unhandled_error (refused_message opt), s') \<and>
                e = RemoteError (Some ''ECONNREFUSED'') \<and> \<not> caller_listens_error rt) \<and>
               emitted_of (trace s') = emitted_of (trace s) @ evs \<and> EvDead \<notin> set evs"
    if "timers s \<noteq> [] \<and> (\<forall>j r. e \<noteq> TimerFire j r)"
    using waiting_emits_no_dead [OF inv, of e rt opt] that by blast
  have a: "\<exists>s'. step rt opt s (LocalError k code) = Inr s' \<and>
               trace s' = trace s @ [LocalEnd k, RemoteRemoveListener k, SetTimeout 1000] \<and>
               timers s' = [now s + 1000] \<and> remote_ended s' = remote_ended s"
    if "local_alive k s \<and> l_error_once (locals s ! k) \<and>
          (code = Some ''ECONNREFUSED'' \<or> code = Some ''ECONNRESET'')"
  proof -
    from that have k: "local_alive k s" "l_error_once (locals s ! k)"
      and c: "\<not> (code \<noteq> Some ''ECONNREFUSED'' \<and> code \<noteq> Some ''ECONNRESET'')"
      by auto
    from local_error_step [OF inv k, of rt opt code]
    obtain s' where st: "step rt opt s (LocalError k code) = Inr s'"
      and tr: "trace s' = trace s @ [LocalEnd k, RemoteRemoveListener k] @
             (if code \<noteq> Some ''ECONNREFUSED'' \<and> code \<noteq> Some ''ECONNRESET''
              then [RemoteEnd] else [SetTimeout 1000])"
      and tm: "timers s' = (if code \<noteq> Some ''ECONNREFUSED'' \<and> code \<noteq> Some ''ECONNRESET''
                        then [] else [now s + 1000])"
      and re: "remote_ended s' = (remote_ended s \<or>
              (code \<noteq> Some ''ECONNREFUSED'' \<and> code \<noteq> Some ''ECONNRESET''))"
      by blast
    from tr tm re c
    have "trace s' = trace s @ [LocalEnd k, RemoteRemoveListener k, SetTimeout 1000]"
      "timers s' = [now s + 1000]" "remote_ended s' = remote_ended s"
      by simp_all
    with st show ?thesis by blast
  qed
  have b: "length (timers s) \<le> 1"
    using inv by (simp add: pairing_inv_def)
  have c: "(now s < timers s ! i \<longrightarrow> step rt opt s (TimerFire i random) = Inr s) \<and>
            (timers s ! i \<le> now s \<and> \<not> remote_destroyed s \<and> connect_local rt opt = Inr tr \<longrightarrow>
               (\<exists>s'. step rt opt s (TimerFire i random) = Inr s' \<and>
                  trace s' = trace s @ [RemotePause, RemoteOnceClose (length (locals s))] \<and>
                  length (locals s') = Suc (length (locals s)) \<and> timers s' = [])) \<and>
            (timers s ! i \<le> now s \<and> remote_destroyed s \<longrightarrow>
               (\<exists>s'. step rt opt s (TimerFire i random) = Inr s' \<and>
                  trace s' = trace s @ [Emit EvDead] \<and> locals s' = locals s \<and> timers s' = []))"
    if "i < length (timers s)"
    using timer_step [OF inv that, of rt opt random tr] by blast
  have d: "\<exists>t. session rt opt (RemoteConnect random # refused_rounds n) = Inr t \<and>
               length (locals t) = Suc n \<and> emitted_of (trace t) = [EvOpen]"
    if "connect_local rt opt = Inr tr"
    using refused_rounds_run [OF that session_run(1) [OF assms], of random n] by blast
  from a b c d w show ?thesis by blast
qed

theorem local_transient_error_retry_witness:
  "(\<exists>s s'. session rt0 opts0 [RemoteConnect (1/2)] = Inr s \<and>
      step rt0 opts0 s (LocalError 0 (Some ''ECONNREFUSED'')) = Inr s' \<and>
      trace s' = trace s @ [LocalEnd 0, RemoteRemoveListener 0, SetTimeout 1000] \<and>
      timers s' = [now s + 1000]) \<and>
   (\<exists>s. session rt0 opts0 [RemoteConnect (1/2), LocalError 0 (Some ''ECONNRESET''), Advance 999] = Inr s \<and>
      step rt0 opts0 s (TimerFire 0 (1/4)) = Inr s) \<and>
   (\<exists>s s'. session rt0 opts0 [RemoteConnect (1/2), LocalError 0 (Some ''ECONNRESET''), Advance 1000] = Inr s \<and>
      step rt0 opts0 s (TimerFire 0 (1/4)) = Inr s' \<and>
      trace s' = trace s @ [RemotePause, RemoteOnceClose 1] \<and> length (locals s') = 2) \<and>
   (\<exists>s s'. session rt0 opts0 [RemoteConnect (1/2), LocalError 0 (Some ''ECONNRESET''), RemoteClose,
                               Advance 1000] = Inr s \<and>
      step rt0 opts0 s (TimerFire 0 (1/4)) = Inr s' \<and>
      trace s' = trace s @ [Emit EvDead] \<and> locals s' = locals s) \<and>
   (\<exists>t. session rt0 opts0 (RemoteConnect (1/2) # refused_rounds 3) = Inr t \<and>
      length (locals t) = 4 \<and> emitted_of (trace t) = [EvOpen]) \<and>
   (\<exists>s s' evs. session rt0 opts0 [RemoteConnect (1/2), LocalError 0 (Some ''ECONNRESET''), Advance 999] = Inr s \<and>
      step rt0 opts0 s RemoteClose = Inr s' \<and>
      emitted_of (trace s') = emitted_of (trace s) @ evs \<and> EvDead \<notin> set evs)"
proof -
  have cl: "connect_local rt0 opts0 = Inr NetConnect"
    by (simp add: connect_local_def check_port_def opts0_def)
  obtain s where s: "session rt0 opts0 [RemoteConnect (1/2)] = Inr s"
    "local_alive 0 s" "l_error_once (locals s ! 0)"
    by (simp add: eval_defs opts0_def rt0_def)
  have A: "\<exists>s'. step rt0 opts0 s (LocalError 0 (Some ''ECONNREFUSED'')) = Inr s' \<and>
      trace s' = trace s @ [LocalEnd 0, RemoteRemoveListener 0, SetTimeout 1000] \<and>
      timers s' = [now s + 1000]"
    using local_transient_error_retry [OF s(1), of 0 "Some ''ECONNREFUSED''"] s(2,3) by blast
  obtain u where u: "session rt0 opts0 [RemoteConnect (1/2), LocalError 0 (Some ''ECONNRESET''), Advance 999] = Inr u"
    "0 < length (timers u)" "now u < timers u ! 0"
    by (simp add: eval_defs opts0_def rt0_def)
  have B: "step rt0 opts0 u (TimerFire 0 (1/4)) = Inr u"
    using local_transient_error_retry [OF u(1), of _ _ 0 "1/4"] u(2,3) by blast
  obtain v where v: "session rt0 opts0 [RemoteConnect (1/2), LocalError 0 (Some ''ECONNRESET''), Advance 1000] = Inr v"
    "0 < length (timers v)" "timers v ! 0 \<le> now v" "\<not> remote_destroyed v" "length (locals v) = 1"
    by (simp add: eval_defs opts0_def rt0_def)
  have C: "\<exists>s'. step rt0 opts0 v (TimerFire 0 (1/4)) = Inr s' \<and>
      trace s' = trace v @ [RemotePause, RemoteOnceClose 1] \<and> length (locals s') = 2"
  proof -
    from local_transient_error_retry [OF v(1), of _ _ 0 "1/4" NetConnect] v(2-4) cl
    obtain s' where st: "step rt0 opts0 v (TimerFire 0 (1/4)) = Inr s'"
      and f: "trace s' = trace v @ [RemotePause, RemoteOnceClose (length (locals v))]"
        "length (locals s') = Suc (length (locals v))"
      by blast
    from f v(5) have "trace s' = trace v @ [RemotePause, RemoteOnceClose 1]" "length (locals s') = 2"
      by simp_all
    with st show ?thesis by blast
  qed
  obtain w where w: "session rt0 opts0 [RemoteConnect (1/2), LocalError 0 (Some ''ECONNRESET''), RemoteClose,
                               Advance 1000] = Inr w"
    "0 < length (timers w)" "timers w ! 0 \<le> now w" "remote_destroyed w"
    by (simp add: eval_defs opts0_def rt0_def)
  have D: "\<exists>s'. step rt0 opts0 w (TimerFire 0 (1/4)) = Inr s' \<and>
      trace s' = trace w @ [Emit EvDead] \<and> locals s' = locals w"
    using local_transient_error_retry [OF w(1), of _ _ 0 "1/4"] w(2-4) by blast
  have E: "\<exists>t. session rt0 opts0 (RemoteConnect (1/2) # refused_rounds 3) = Inr t \<and>
      length (locals t) = 4 \<and> emitted_of (trace t) = [EvOpen]"
  proof -
    from local_transient_error_retry [OF s(1), of _ _ _ "1/2" NetConnect 3] cl
    obtain t where st: "session rt0 opts0 (RemoteConnect (1/2) # refused_rounds 3) = Inr t"
      and f: "length (locals t) = Suc 3" "emitted_of (trace t) = [EvOpen]"
      by blast
    from f have "length (locals t) = 4" by simp
    with st f(2) show ?thesis by blast
  qed
  have "\<forall>j r. (RemoteClose :: string event) \<noteq> TimerFire j r" by simp
  moreover have "timers u \<noteq> []" using u(2) by auto
  ultimately have F: "\<exists>s' evs. step rt0 opts0 u RemoteClose = Inr s' \<and>
      emitted_of (trace s') = emitted_of (trace u) @ evs \<and> EvDead \<notin> set evs"
    using local_transient_error_retry [OF u(1), of _ _ _ _ _ _ RemoteClose] by blast
  show ?thesis
    using A B C D E F s(1) u(1) v(1) w(1) by blast
qed

section \<open>Errors of the remote connection\<close>

lemma only_dead_refl: "only_dead s s"
  unfolding only_dead_def by (simp add: exI [of _ 0])

lemma only_dead_trans:
  assumes "only_dead s t" and "only_dead t u"
  shows "only_dead s u"
proof -
  from assms obtain n m where
    "emitted_of (trace t) = emitted_of (trace s) @ replicate n EvDead"
    "emitted_of (trace u) = emitted_of (trace t) @ replicate m EvDead"
    unfolding only_dead_def by blast
  then have "emitted_of (trace u) = emitted_of (trace s) @ replicate (n + m) EvDead"
    by (simp add: replicate_add)
  then have "\<exists>n. emitted_of (trace u) = emitted_of (trace s) @ replicate n EvDead"
    by blast
  with assms show ?thesis
    unfolding only_dead_def by simp
qed

lemma only_dead_silent:
  assumes "remote_destroyed s \<longrightarrow> remote_destroyed s'"
    and "length (locals s') = length (locals s)"
    and "emitted_of (trace s') = emitted_of (trace s)"
  shows "only_dead s s'"
  unfolding only_dead_def using assms by (simp add: exI [of _ 0])

lemma only_dead_one:
  assumes "remote_destroyed s \<longrightarrow> remote_destroyed s'"
    and "length (locals s') = length (locals s)"
    and "emitted_of (trace s') = emitted_of (trace s) @ [EvDead]"
  shows "only_dead s s'"
  unfolding only_dead_def using assms by (simp add: exI [of _ 1])

lemma only_dead_update_local: "only_dead s (update_local k f s)"
  by (rule only_dead_silent) (simp_all add: update_local_def)

lemma only_dead_remoteClose: "only_dead s (remoteClose k s)"
  by (rule only_dead_one) (simp_all add: op_defs emitted_of_append)

lemma only_dead_teardown: "only_dead s (remoteClose k (remote_end (remote_removeListener k s)))"
  by (rule only_dead_one) (simp_all add: op_defs emitted_of_append)

lemma only_dead_onTimeout_callback: "only_dead s (onTimeout_callback k s)"
  by (simp add: onTimeout_callback_def only_dead_refl only_dead_teardown)

lemma only_dead_local_timeout_handler: "only_dead s (local_timeout_handler k s)"
  by (simp add: local_timeout_handler_def only_dead_refl only_dead_teardown)

lemma only_dead_fold:
  assumes "\<And>k t. only_dead t (f k t)"
  shows "only_dead s (fold f ks s)"
proof (induction ks arbitrary: s)
  case Nil
  show ?case by (simp add: only_dead_refl)
next
  case (Cons k ks)
  show ?case
    using only_dead_trans [OF assms [of s k] Cons [of "f k s"]] by simp
qed

lemma only_dead_remote_close_event: "only_dead s (remote_close_event s)"
proof -
  have "only_dead s (s \<lparr> remote_destroyed := True, remote_closed := True, close_listeners := [] \<rparr>)"
    by (rule only_dead_silent) simp_all
  then show ?thesis
    unfolding remote_close_event_def
    by (rule only_dead_trans) (rule only_dead_fold, rule only_dead_remoteClose)
qed

lemma only_dead_local_data_event: "only_dead s (local_data_event rt k data s)"
proof (cases "l_timeoutInjector (locals s ! k)")
  case None
  then show ?thesis by (simp add: local_data_event_def only_dead_refl)
next
  case (Some injector)
  let ?r = "transform' (toString rt) data injector"
  let ?s1 = "update_local k (\<lambda>l. l \<lparr> l_timeoutInjector := Some (instance_after ?r) \<rparr>) s"
  let ?s2 = "fold onTimeout_callback (invoked ?r) ?s1"
  have "only_dead s ?s1" by (rule only_dead_update_local)
  moreover have "only_dead ?s1 ?s2"
    by (rule only_dead_fold) (rule only_dead_onTimeout_callback)
  moreover have "only_dead ?s2 (do_effect (RemoteWrite (pushed ?r)) ?s2)"
    by (rule only_dead_silent) (simp_all add: do_effect_def emitted_of_append)
  ultimately have "only_dead s (do_effect (RemoteWrite (pushed ?r)) ?s2)"
    using only_dead_trans by blast
  then show ?thesis
    using Some by (simp add: local_data_event_def Let_def)
qed

lemma only_dead_local_connect_handler: "only_dead s (local_connect_handler opt k s)"
  by (rule only_dead_silent)
     (simp_all add: local_connect_handler_def Let_def op_defs emitted_of_append)

lemma only_dead_local_error_handler: "only_dead s (local_error_handler k code s)"
  by (rule only_dead_silent)
     (simp_all add: local_error_handler_def Let_def op_defs emitted_of_append)

lemma step_after_destroyed:
  assumes "remote_destroyed s"
  shows "\<exists>s'. step rt opt s e = Inr s' \<and> only_dead s s'"
proof (cases e)
  case (RemoteConnect r)
  then show ?thesis using assms by (simp add: only_dead_refl)
next
  case (RemoteData d)
  then show ?thesis using assms by (simp add: only_dead_refl)
next
  case (RemoteError c)
  then show ?thesis using assms by (simp add: only_dead_refl)
next
  case RemoteClose
  then show ?thesis
    by (simp add: only_dead_refl only_dead_remote_close_event)
next
  case (LocalConnect k)
  have "only_dead s (local_connect_handler opt k (update_local k (\<lambda>l. l \<lparr> l_connect_once := False \<rparr>) s))"
    by (rule only_dead_trans [OF only_dead_update_local only_dead_local_connect_handler])
  then show ?thesis
    using LocalConnect by (simp add: only_dead_refl)
next
  case (LocalError k c)
  have "only_dead s (destroy_local k s)"
    unfolding destroy_local_def by (rule only_dead_update_local)
  then have "only_dead s (update_local k (\<lambda>l. l \<lparr> l_error_once := False \<rparr>) (destroy_local k s))"
    by (rule only_dead_trans) (rule only_dead_update_local)
  then have "only_dead s (local_error_handler k c
      (update_local k (\<lambda>l. l \<lparr> l_error_once := False \<rparr>) (destroy_local k s)))"
    by (rule only_dead_trans) (rule only_dead_local_error_handler)
  then show ?thesis
    using LocalError by (simp add: only_dead_refl)
next
  case (LocalTimeout k)
  have "only_dead s (local_timeout_handler k (update_local k (\<lambda>l. l \<lparr> l_timeout_once := False \<rparr>) s))"
    by (rule only_dead_trans [OF only_dead_update_local only_dead_local_timeout_handler])
  then show ?thesis
    using LocalTimeout by (simp add: only_dead_refl)
next
  case (LocalData k d)
  then show ?thesis
    by (simp add: only_dead_refl only_dead_local_data_event)
next
  case (LocalClose k)
  have "only_dead s (destroy_local k s)"
    unfolding destroy_local_def by (rule only_dead_update_local)
  then have "only_dead s (update_local k (\<lambda>l. l \<lparr> l_close_once := False \<rparr>) (destroy_local k s))"
    by (rule only_dead_trans) (rule only_dead_update_local)
  then show ?thesis
    using LocalClose by (simp add: only_dead_refl)
next
  case (TimerFire i r)
  let ?s0 = "s \<lparr> timers := take i (timers s) @ drop (Suc i) (timers s) \<rparr>"
  have "only_dead s (emit EvDead ?s0)"
    by (rule only_dead_one) (simp_all add: emit_def do_effect_def emitted_of_append)
  then show ?thesis
    using TimerFire assms by (simp add: connLocal_destroyed only_dead_refl)
next
  case (Advance ms)
  have "only_dead s (s \<lparr> now := now s + ms \<rparr>)"
    by (rule only_dead_silent) simp_all
  then show ?thesis using Advance by simp
qed

lemma run_after_destroyed:
  assumes "remote_destroyed s"
  shows "\<exists>s'. run rt opt s es = Inr s' \<and> only_dead s s'"
  using assms
proof (induction es arbitrary: s)
  case Nil
  then show ?case by (simp add: only_dead_refl)
next
  case (Cons e es)
  from step_after_destroyed [OF Cons.prems, of rt opt e]
  obtain t where t: "step rt opt s e = Inr t" "only_dead s t" by blast
  then have "remote_destroyed t"
    using Cons.prems by (simp add: only_dead_def)
  from Cons.IH [OF this] obtain u where u: "run rt opt t es = Inr u" "only_dead t u"
    by blast
  from only_dead_trans [OF t(2) u(2)] t(1) u(1) show ?case by simp
qed

lemma includes_middle: "includes' (ps @ needle @ ss) needle"
  unfolding includes_iff by blast

lemma digit_char_code:
  assumes "d < 10"
  shows "(of_char (digit_char d) :: nat) = 48 + d"
proof -
  from assms have "d \<in> {0, 1, 2, 3, 4, 5, 6, 7, 8, 9}" by auto
  then show ?thesis by (auto simp: digit_char_def)
qed

lemma template_num_cases:
  "n < 10 \<Longrightarrow> template_num n = [digit_char n]"
  "\<not> n < 10 \<Longrightarrow> template_num n = template_num (n div 10) @ [digit_char (n mod 10)]"
  using template_num.simps [of n] by (simp_all del: template_num.simps)

lemma template_num_digits: "template_num n \<noteq> [] \<and> list_all is_digit (template_num n)"
proof (induction n rule: template_num.induct)
  case (1 n)
  show ?case
  proof (cases "n < 10")
    case True
    then show ?thesis
      by (simp add: template_num_cases(1) is_digit_def digit_char_code del: template_num.simps)
  next
    case False
    have "n mod 10 < 10" by simp
    then have "is_digit (digit_char (n mod 10))"
      by (simp add: is_digit_def digit_char_code)
    with "1.IH" [OF False] show ?thesis
      by (simp add: template_num_cases(2) [OF False] del: template_num.simps)
  qed
qed

lemma decimal_value_snoc:
  "decimal_value (ds @ [c]) = 10 * decimal_value ds + (of_char c - 48)"
  by (simp add: decimal_value_def)

lemma decimal_value_template_num: "decimal_value (template_num n) = n"
proof (induction n rule: template_num.induct)
  case (1 n)
  show ?case
  proof (cases "n < 10")
    case True
    then show ?thesis
      by (simp add: template_num_cases(1) decimal_value_def digit_char_code
            del: template_num.simps)
  next
    case False
    have "n mod 10 < 10" by simp
    then have "(of_char (digit_char (n mod 10)) :: nat) - 48 = n mod 10"
      by (simp add: digit_char_code)
    with "1.IH" [OF False] show ?thesis
      by (simp add: template_num_cases(2) [OF False] decimal_value_snoc
            del: template_num.simps)
  qed
qed

lemma template_num_no_leading_zero:
  "hd (template_num n) = CHR ''0'' \<Longrightarrow> n = 0"
proof (induction n rule: template_num.induct)
  case (1 n)
  show ?case
  proof (cases "n < 10")
    case True
    with "1.prems" have "digit_char n = CHR ''0''"
      by (simp add: template_num_cases(1) del: template_num.simps)
    then have "(of_char (digit_char n) :: nat) = 48" by simp
    with True show ?thesis by (simp add: digit_char_code)
  next
    case False
    have "hd (template_num n) = hd (template_num (n div 10))"
      using template_num_digits [of "n div 10"]
      by (simp add: template_num_cases(2) [OF False] del: template_num.simps)
    with "1.prems" "1.IH" [OF False] have "n div 10 = 0" by simp
    with False show ?thesis by simp
  qed
qed

lemma refused_message_form:
  assumes "truthy (remote_ip opt) \<and> remote_ip opt = Some host \<or>
           \<not> truthy (remote_ip opt) \<and> remote_host opt = Some host"
    and "remote_port opt = Some port"
  shows "refused_message opt =
           ''connection refused: '' @ host @ '':'' @ template_num port
             @ '' (check your firewall settings)''"
  using assms
  by (auto simp: refused_message_def remoteHostOrIp_def or_else_def
        simp del: template_num.simps)

lemma remote_error_returns:
  assumes "\<not> remote_destroyed s"
    and "code \<noteq> Some ''ECONNREFUSED'' \<or> caller_listens_error rt"
  shows "\<exists>s'. step rt opt s (RemoteError code) = Inr s' \<and>
           trace s' = trace s @
             (if code = Some ''ECONNREFUSED'' then [Emit (EvError (refused_message opt))] else [])
             @ [RemoteEnd] \<and>
           locals s' = locals s \<and> timers s' = timers s \<and> remote_destroyed s' \<and>
           remote_ended s' \<and> close_listeners s' = close_listeners s \<and>
           remote_closed s' = remote_closed s \<and>
           remote_connect_once s' = remote_connect_once s"
  using assms by (auto simp: remote_error_handler_def op_defs)

lemma remote_error_throws:
  assumes "\<not> remote_destroyed s" and "\<not> caller_listens_error rt"
  shows "step rt opt s (RemoteError (Some ''ECONNREFUSED'')) =
           Inl (Unhandled_error (refused_message opt), s \<lparr> remote_destroyed := True \<rparr>)"
  using assms by (simp add: remote_error_handler_def)

lemma connLocal_closed:
  assumes "connLocal rt opt random s = Inr s'"
  shows "remote_closed s' = remote_closed s \<and> remote_destroyed s' = remote_destroyed s"
proof (cases "remote_destroyed s")
  case True
  then show ?thesis
    using assms by (auto simp: connLocal_destroyed emit_def do_effect_def)
next
  case False
  show ?thesis
  proof (cases "connect_local rt opt")
    case (Inl e)
    then show ?thesis using assms False by (simp add: connLocal_throws)
  next
    case (Inr tr)
    from connLocal_new_local [OF False Inr, of random] assms show ?thesis
      by auto
  qed
qed

lemma step_closed:
  assumes c: "remote_closed s \<longrightarrow> remote_destroyed s" and st: "step rt opt s e = Inr s'"
  shows "remote_closed s' \<longrightarrow> remote_destroyed s'"
proof -
  have by_frame: ?thesis if "frame s s'"
    using that c by (auto simp: frame_def)
  show ?thesis
  proof (cases e)
    case (RemoteConnect r)
    show ?thesis
    proof (cases "remote_connect_once s \<and> \<not> remote_destroyed s")
      case True
      then have "connLocal rt opt r (emit EvOpen (s \<lparr> remote_connect_once := False \<rparr>)) = Inr s'"
        using st RemoteConnect by (simp add: remote_connect_handler_def)
      from connLocal_closed [OF this] c show ?thesis
        by (simp add: emit_def do_effect_def)
    next
      case False
      then show ?thesis using st RemoteConnect c by auto
    qed
  next
    case (TimerFire i r)
    show ?thesis
    proof (cases "i < length (timers s) \<and> timers s ! i \<le> now s")
      case True
      then have "connLocal rt opt r (s \<lparr> timers := take i (timers s) @ drop (Suc i) (timers s) \<rparr>) = Inr s'"
        using st TimerFire by simp
      from connLocal_closed [OF this] c show ?thesis by simp
    next
      case False
      then show ?thesis using st TimerFire c by auto
    qed
  next
    case (LocalError k code)
    then show ?thesis
      using st c
      by (auto simp: local_error_handler_fields update_local_def destroy_local_def split: if_splits)
  next
    case (Advance ms)
    then show ?thesis using st c by auto
  next
    case (RemoteData d)
    then show ?thesis using step_frame [OF st] by_frame by simp
  next
    case (RemoteError code)
    then show ?thesis using step_frame [OF st] by_frame by simp
  next
    case RemoteClose
    then show ?thesis using step_frame [OF st] by_frame by simp
  next
    case (LocalConnect k)
    then show ?thesis using step_frame [OF st] by_frame by simp
  next
    case (LocalTimeout k)
    then show ?thesis using step_frame [OF st] by_frame by simp
  next
    case (LocalData k d)
    then show ?thesis using step_frame [OF st] by_frame by simp
  next
    case (LocalClose k)
    then show ?thesis using step_frame [OF st] by_frame by simp
  qed
qed

lemma run_closed:
  assumes "remote_closed s \<longrightarrow> remote_destroyed s" and "run rt opt s es = Inr s'"
  shows "remote_closed s' \<longrightarrow> remote_destroyed s'"
  using assms
proof (induction es arbitrary: s)
  case Nil
  then show ?case by simp
next
  case (Cons e es)
  from Cons.prems(2) obtain t where t: "step rt opt s e = Inr t" "run rt opt t es = Inr s'"
    by (auto split: sum.splits)
  from Cons.IH [OF step_closed [OF Cons.prems(1) t(1)] t(2)] show ?case .
qed

lemma session_closed:
  assumes "session rt opt es = Inr s"
  shows "remote_closed s \<longrightarrow> remote_destroyed s"
proof -
  have "remote_closed (initial_state :: 'a state) \<longrightarrow> remote_destroyed (initial_state :: 'a state)"
    by (simp add: initial_state_def)
  from run_closed [OF this session_run(2) [OF assms]] show ?thesis .
qed

lemma session_remote_port:
  assumes "session rt opt es = Inr s"
  shows "\<exists>port. remote_port opt = Some port \<and> port \<le> 65535"
  using session_run(1) [OF assms]
  by (auto simp: open'_def check_port_def split: option.splits if_splits)

lemma inv_listeners:
  assumes "pairing_inv s"
  shows "close_listeners s = [] \<or> (\<exists>k. close_listeners s = [k])"
proof (cases "close_listeners s")
  case Nil
  then show ?thesis by simp
next
  case (Cons k ks)
  have d: "distinct (k # ks)"
    and l: "\<forall>j \<in> set (k # ks). Suc j = length (locals s)"
    using assms Cons by (auto simp: pairing_inv_def)
  have "j \<notin> set ks" for j
  proof
    assume j: "j \<in> set ks"
    with l have "Suc j = length (locals s)" "Suc k = length (locals s)" by simp_all
    then have "j = k" by simp
    with j d show False by simp
  qed
  then have "ks = []" by (cases ks) auto
  with Cons show ?thesis by simp
qed

lemma close_after_error:
  assumes inv: "pairing_inv s" and nc: "\<not> remote_closed s"
  shows "\<exists>s'. step rt opt s RemoteClose = Inr s' \<and>
           emitted_of (trace s') =
             emitted_of (trace s) @ (if close_listeners s = [] then [] else [EvDead])"
  using inv_listeners [OF inv] nc
  by (auto simp: remote_close_event_def op_defs emitted_of_append)

lemma step_unpaired_destroyed:
  assumes "unpaired s" and "remote_destroyed s"
  shows "\<exists>s'. step rt opt s e = Inr s' \<and> unpaired s' \<and> remote_destroyed s' \<and>
           emitted_of (trace s') = emitted_of (trace s)"
  using assms
  by (cases e) (auto simp: unpaired_def local_alive_def remote_close_event_def)

lemma run_unpaired_destroyed:
  assumes "unpaired s" and "remote_destroyed s"
  shows "\<exists>s'. run rt opt s es = Inr s' \<and> unpaired s' \<and> remote_destroyed s' \<and>
           emitted_of (trace s') = emitted_of (trace s)"
  using assms
proof (induction es arbitrary: s)
  case Nil
  then show ?case by simp
next
  case (Cons e es)
  from step_unpaired_destroyed [OF Cons.prems, of rt opt e]
  obtain t where t: "step rt opt s e = Inr t" "unpaired t" "remote_destroyed t"
    "emitted_of (trace t) = emitted_of (trace s)"
    by blast
  from Cons.IH [OF t(2,3)] t(1,4) show ?case by simp
qed

lemma inv_unpaired:
  assumes "pairing_inv s" and "remote_connect_once s"
  shows "unpaired s"
proof -
  have l: "locals s = []" "timers s = []"
    using assms by (simp_all add: pairing_inv_def)
  have "\<forall>k \<in> set (close_listeners s). Suc k = length (locals s)"
    using assms(1) by (simp add: pairing_inv_def)
  with l(1) have "k \<notin> set (close_listeners s)" for k by auto
  then have "close_listeners s = []" by (cases "close_listeners s") auto
  with l show ?thesis by (simp add: unpaired_def)
qed

text \<open>
  C6, as stated, fails in its last part: an error of the remote with a code other than
  \<open>ECONNREFUSED\<close> is not always followed by \<open>dead\<close>. Only the close listener that
  \<open>connLocal\<close> registers emits \<open>dead\<close>, and before the remote has connected there is
  none: after such an error on the initial connect and the remote's close, the remote
  has been ended and the caller has seen no event at all, whatever happens later.
\<close>

theorem remote_error_without_dead_counterexample:
  "(\<exists>s. session rt0 opts0 [RemoteError (Some ''ETIMEDOUT''), RemoteClose] = Inr s \<and>
        trace s = [RemoteEnd] \<and> remote_ended s \<and> remote_closed s) \<and>
   caller_saw (session rt0 opts0 [RemoteError (Some ''ETIMEDOUT''), RemoteClose]) = [] \<and>
   caller_saw (session rt0 opts0 [RemoteError (Some ''ETIMEDOUT''), RemoteClose,
                                  RemoteConnect (1/2), Advance 90000]) = []"
  by (simp add: caller_saw_def eval_defs opts0_def rt0_def)

text \<open>
  C6, amended. Take a state that a session can reach, with the remote not destroyed, and
  an error of the remote.
  \<^item> With code \<open>ECONNREFUSED\<close> and a listener for \<open>error\<close> on the TunnelCluster, the
    handler emits \<open>error\<close> with the message and then ends the remote. Without such a
    listener, \<open>emit\<close> throws the error and the remote is not ended.
  \<^item> With any other code the handler ends the remote and emits nothing.
  \<^item> The message is \<open>connection refused: host:port (check your firewall settings)\<close>, where
    \<open>host\<close> is \<open>remote_ip\<close> if that is set and not empty, else \<open>remote_host\<close>, and \<open>port\<close> is
    the decimal numeral of \<open>remote_port\<close>, without leading zeros; so it contains both.
  \<^item> When the handler returns, it has created no local socket and set no timer, the
    remote is ended, and whatever happens afterwards no local socket is created any
    more and the caller sees nothing but \<open>dead\<close> events.
  \<^item> The remote's close that follows emits \<open>dead\<close> exactly when a close listener of a
    pairing was registered at the time of the error. If the remote had not connected
    yet, none was, and the caller sees no further event at all.
\<close>

theorem remote_error_handling:
  assumes "session rt opt es = Inr s" and "\<not> remote_destroyed s"
  shows "(code = Some ''ECONNREFUSED'' \<and> caller_listens_error rt \<longrightarrow>
            (\<exists>t. step rt opt s (RemoteError code) = Inr t \<and>
               trace t = trace s @ [Emit (EvError (refused_message opt)), RemoteEnd])) \<and>
         (code = Some ''ECONNREFUSED'' \<and> \<not> caller_listens_error rt \<longrightarrow>
            step rt opt s (RemoteError code) =
              Inl (Unhandled_error (refused_message opt), s \<lparr> remote_destroyed := True \<rparr>)) \<and>
         (code \<noteq> Some ''ECONNREFUSED'' \<longrightarrow>
            (\<exists>t. step rt opt s (RemoteError code) = Inr t \<and> trace t = trace s @ [RemoteEnd])) \<and>
         (truthy (remote_ip opt) \<and> remote_ip opt = Some host \<or>
          \<not> truthy (remote_ip opt) \<and> remote_host opt = Some host \<longrightarrow>
            (\<exists>port digits. remote_port opt = Some port \<and> port \<le> 65535 \<and>
               refused_message opt =
                 ''connection refused: '' @ host @ '':'' @ digits
                   @ '' (check your firewall settings)'' \<and>
               digits \<noteq> [] \<and> list_all is_digit digits \<and> decimal_value digits = port \<and>
               (hd digits = CHR ''0'' \<longrightarrow> digits = ''0'') \<and>
               includes' (refused_message opt) host \<and>
               includes' (refused_message opt) digits)) \<and>
         (step rt opt s (RemoteError code) = Inr s' \<longrightarrow>
            remote_ended s' \<and> remote_destroyed s' \<and>
            locals s' = locals s \<and> timers s' = timers s \<and>
            (\<forall>later. \<exists>s''. run rt opt s' later = Inr s'' \<and>
               length (locals s'') = length (locals s) \<and>
               (\<exists>n. emitted_of (trace s'') = emitted_of (trace s') @ replicate n EvDead)) \<and>
            (\<exists>s''. step rt opt s' RemoteClose = Inr s'' \<and>
               emitted_of (trace s'') =
                 emitted_of (trace s') @ (if close_listeners s = [] then [] else [EvDead])) \<and>
            (remote_connect_once s \<longrightarrow>
               close_listeners s = [] \<and>
               (\<forall>later. \<exists>s''. run rt opt s' later = Inr s'' \<and>
                  emitted_of (trace s'') = emitted_of (trace s'))))"
proof (intro conjI impI)
  assume a: "code = Some ''ECONNREFUSED'' \<and> caller_listens_error rt"
  then have "code \<noteq> Some ''ECONNREFUSED'' \<or> caller_listens_error rt" by simp
  from remote_error_returns [OF assms(2) this, of opt]
  obtain t where t: "step rt opt s (RemoteError code) = Inr t"
    "trace t = trace s @
       (if code = Some ''ECONNREFUSED'' then [Emit (EvError (refused_message opt))] else [])
       @ [RemoteEnd]"
    by blast
  from t(2) a have "trace t = trace s @ [Emit (EvError (refused_message opt)), RemoteEnd]"
    by simp
  with t(1) show "\<exists>t. step rt opt s (RemoteError code) = Inr t \<and>
               trace t = trace s @ [Emit (EvError (refused_message opt)), RemoteEnd]"
    by blast
next
  assume "code = Some ''ECONNREFUSED'' \<and> \<not> caller_listens_error rt"
  then show "step rt opt s (RemoteError code) =
      Inl (Unhandled_error (refused_message opt), s \<lparr> remote_destroyed := True \<rparr>)"
    using remote_error_throws [OF assms(2), of rt opt] by simp
next
  assume a: "code \<noteq> Some ''ECONNREFUSED''"
  then have "code \<noteq> Some ''ECONNREFUSED'' \<or> caller_listens_error rt" by simp
  from remote_error_returns [OF assms(2) this, of opt]
  obtain t where t: "step rt opt s (RemoteError code) = Inr t"
    "trace t = trace s @
       (if code = Some ''ECONNREFUSED'' then [Emit (EvError (refused_message opt))] else [])
       @ [RemoteEnd]"
    by blast
  from t(2) a have "trace t = trace s @ [RemoteEnd]"
    by simp
  with t(1) show "\<exists>t. step rt opt s (RemoteError code) = Inr t \<and> trace t = trace s @ [RemoteEnd]"
    by blast
next
  assume h: "truthy (remote_ip opt) \<and> remote_ip opt = Some host \<or>
          \<not> truthy (remote_ip opt) \<and> remote_host opt = Some host"
  from session_remote_port [OF assms(1)]
  obtain port where p: "remote_port opt = Some port" "port \<le> 65535" by blast
  let ?d = "template_num port"
  have m: "refused_message opt =
      ''connection refused: '' @ host @ '':'' @ ?d @ '' (check your firewall settings)''"
    by (rule refused_message_form [OF h p(1)])
  have d: "?d \<noteq> []" "list_all is_digit ?d" "decimal_value ?d = port"
    using template_num_digits [of port] decimal_value_template_num [of port]
    by (simp_all del: template_num.simps)
  have z: "hd ?d = CHR ''0'' \<longrightarrow> ?d = ''0''"
  proof
    assume "hd ?d = CHR ''0''"
    then have "port = 0" by (rule template_num_no_leading_zero)
    then show "?d = ''0''" by (simp add: digit_char_def)
  qed
  have i1: "includes' (refused_message opt) host"
    unfolding m by (rule includes_middle)
  have "includes' ((''connection refused: '' @ host @ '':'') @ ?d
      @ '' (check your firewall settings)'') ?d"
    by (rule includes_middle)
  then have i2: "includes' (refused_message opt) ?d"
    unfolding m by (simp del: template_num.simps)
  show "\<exists>port digits. remote_port opt = Some port \<and> port \<le> 65535 \<and>
               refused_message opt =
                 ''connection refused: '' @ host @ '':'' @ digits
                   @ '' (check your firewall settings)'' \<and>
               digits \<noteq> [] \<and> list_all is_digit digits \<and> decimal_value digits = port \<and>
               (hd digits = CHR ''0'' \<longrightarrow> digits = ''0'') \<and>
               includes' (refused_message opt) host \<and>
               includes' (refused_message opt) digits"
    by (intro exI [of _ port] exI [of _ "template_num port"] conjI) (rule p m d z i1 i2)+
next
  assume st: "step rt opt s (RemoteError code) = Inr s'"
  have inv: "pairing_inv s" using assms(1) by (rule session_inv)
  have ret: "code \<noteq> Some ''ECONNREFUSED'' \<or> caller_listens_error rt"
  proof (rule ccontr)
    assume "\<not> (code \<noteq> Some ''ECONNREFUSED'' \<or> caller_listens_error rt)"
    then have "code = Some ''ECONNREFUSED''" "\<not> caller_listens_error rt" by simp_all
    with remote_error_throws [OF assms(2) this(2), of opt] st show False by simp
  qed
  from remote_error_returns [OF assms(2) ret, of opt]
  obtain t where t: "step rt opt s (RemoteError code) = Inr t"
    "locals t = locals s" "timers t = timers s" "remote_destroyed t" "remote_ended t"
    "close_listeners t = close_listeners s" "remote_closed t = remote_closed s"
    "remote_connect_once t = remote_connect_once s"
    by blast
  from t(1) st have "t = s'" by simp
  with t have f: "locals s' = locals s" "timers s' = timers s" "remote_destroyed s'" "remote_ended s'"
    "close_listeners s' = close_listeners s" "remote_closed s' = remote_closed s"
    "remote_connect_once s' = remote_connect_once s"
    by simp_all
  show "remote_ended s'" "remote_destroyed s'" "locals s' = locals s" "timers s' = timers s"
    using f by simp_all
  show "\<forall>later. \<exists>s''. run rt opt s' later = Inr s'' \<and>
               length (locals s'') = length (locals s) \<and>
               (\<exists>n. emitted_of (trace s'') = emitted_of (trace s') @ replicate n EvDead)"
  proof
    fix later
    from run_after_destroyed [OF f(3), of rt opt later]
    obtain s'' where "run rt opt s' later = Inr s''" "only_dead s' s''" by blast
    then show "\<exists>s''. run rt opt s' later = Inr s'' \<and>
               length (locals s'') = length (locals s) \<and>
               (\<exists>n. emitted_of (trace s'') = emitted_of (trace s') @ replicate n EvDead)"
      using f(1) by (auto simp: only_dead_def)
  qed
  have inv': "pairing_inv s'" using step_inv [OF inv st] .
  have "\<not> remote_closed s" using session_closed [OF assms(1)] assms(2) by blast
  then have nc: "\<not> remote_closed s'" using f(6) by simp
  from close_after_error [OF inv' nc, of rt opt] f(5)
  show "\<exists>s''. step rt opt s' RemoteClose = Inr s'' \<and>
               emitted_of (trace s'') =
                 emitted_of (trace s') @ (if close_listeners s = [] then [] else [EvDead])"
    by simp
next
  assume st: "step rt opt s (RemoteError code) = Inr s'" and once: "remote_connect_once s"
  have inv: "pairing_inv s" using assms(1) by (rule session_inv)
  from inv_unpaired [OF inv once] show "close_listeners s = []"
    by (simp add: unpaired_def)
  have ret: "code \<noteq> Some ''ECONNREFUSED'' \<or> caller_listens_error rt"
  proof (rule ccontr)
    assume "\<not> (code \<noteq> Some ''ECONNREFUSED'' \<or> caller_listens_error rt)"
    then have "code = Some ''ECONNREFUSED''" "\<not> caller_listens_error rt" by simp_all
    with remote_error_throws [OF assms(2) this(2), of opt] st show False by simp
  qed
  from remote_error_returns [OF assms(2) ret, of opt]
  obtain t where t: "step rt opt s (RemoteError code) = Inr t"
    "remote_destroyed t" "remote_connect_once t = remote_connect_once s"
    by blast
  from t(1) st have "t = s'" by simp
  with t once have f: "remote_destroyed s'" "remote_connect_once s'"
    by simp_all
  have u: "unpaired s'" using inv_unpaired [OF step_inv [OF inv st] f(2)] .
  show "\<forall>later. \<exists>s''. run rt opt s' later = Inr s'' \<and>
                  emitted_of (trace s'') = emitted_of (trace s')"
    using run_unpaired_destroyed [OF u f(1), of rt opt] by blast
qed

theorem remote_error_handling_witness:
  "(\<exists>t s''. step rt0 opts0 initial_state (RemoteError (Some ''ECONNREFUSED'')) = Inr t \<and>
      trace t = [Emit (EvError ''connection refused: lt.example:4242 (check your firewall settings)''),
                 RemoteEnd] \<and>
      run rt0 opts0 t [RemoteClose, RemoteConnect (1/2), Advance 1000] = Inr s'' \<and>
      locals s'' = [] \<and> emitted_of (trace s'') = emitted_of (trace t)) \<and>
   step (rt0 \<lparr> caller_listens_error := False \<rparr>) opts0 initial_state
        (RemoteError (Some ''ECONNREFUSED'')) =
     Inl (Unhandled_error ''connection refused: lt.example:4242 (check your firewall settings)'',
          initial_state \<lparr> remote_destroyed := True \<rparr>) \<and>
   (\<exists>digits. refused_message opts0 =
        ''connection refused: '' @ ''lt.example'' @ '':'' @ digits
          @ '' (check your firewall settings)'' \<and>
      decimal_value digits = 4242 \<and> includes' (refused_message opts0) ''lt.example'') \<and>
   (\<exists>s t s''. session rt0 opts0 [RemoteConnect (1/2), LocalConnect 0] = Inr s \<and>
      step rt0 opts0 s (RemoteError (Some ''ECONNRESET'')) = Inr t \<and>
      trace t = trace s @ [RemoteEnd] \<and>
      step rt0 opts0 t RemoteClose = Inr s'' \<and>
      emitted_of (trace s'') = [EvOpen, EvDead] \<and> length (locals s'') = 1)"
proof -
  let ?refused = "Some ''ECONNREFUSED''"
  let ?reset = "Some ''ECONNRESET''"
  let ?deaf = "rt0 \<lparr> caller_listens_error := False \<rparr>"
  have i: "session rt0 opts0 [] = Inr (initial_state :: string state)"
    "\<not> remote_destroyed (initial_state :: string state)"
    "trace (initial_state :: string state) = []" "locals (initial_state :: string state) = []"
    "remote_connect_once (initial_state :: string state)"
    by (simp_all add: eval_defs opts0_def)
  have j: "session ?deaf opts0 [] = Inr (initial_state :: string state)"
    by (simp add: eval_defs opts0_def)
  have l: "?refused = ?refused \<and> caller_listens_error rt0"
    "?refused = ?refused \<and> \<not> caller_listens_error ?deaf"
    by (simp_all add: rt0_def)
  have m: "refused_message opts0 = ''connection refused: lt.example:4242 (check your firewall settings)''"
    by (simp add: refused_message_def remoteHostOrIp_def or_else_def opts0_def digit_char_def)
  have h: "truthy (remote_ip opts0) \<and> remote_ip opts0 = Some ''lt.example'' \<or>
          \<not> truthy (remote_ip opts0) \<and> remote_host opts0 = Some ''lt.example''"
    by (simp add: opts0_def)
  have p: "remote_port opts0 = Some 4242" by (simp add: opts0_def)
  from remote_error_handling [OF i(1,2), where code = ?refused, THEN conjunct1, THEN mp, OF l(1)]
  obtain t where t: "step rt0 opts0 initial_state (RemoteError ?refused) = Inr t"
    "trace t = trace (initial_state :: string state) @ [Emit (EvError (refused_message opts0)), RemoteEnd]"
    by (elim exE conjE)
  note after = remote_error_handling [OF i(1,2), where code = ?refused and s' = t,
      THEN conjunct2, THEN conjunct2, THEN conjunct2, THEN conjunct2, THEN mp, OF t(1)]
  from after have later1: "\<forall>later. \<exists>s''. run rt0 opts0 t later = Inr s'' \<and>
               length (locals s'') = length (locals (initial_state :: string state)) \<and>
               (\<exists>n. emitted_of (trace s'') = emitted_of (trace t) @ replicate n EvDead)"
    by (elim conjE)
  from after i(5) have later2: "\<forall>later. \<exists>s''. run rt0 opts0 t later = Inr s'' \<and>
                  emitted_of (trace s'') = emitted_of (trace t)"
    by (elim conjE) (erule impE, assumption, elim conjE, assumption)
  from later1 [THEN spec, of "[RemoteClose, RemoteConnect (1/2), Advance 1000]"]
  obtain s'' where s1: "run rt0 opts0 t [RemoteClose, RemoteConnect (1/2), Advance 1000] = Inr s''"
    "length (locals s'') = length (locals (initial_state :: string state))"
    by (elim exE conjE)
  from later2 [THEN spec, of "[RemoteClose, RemoteConnect (1/2), Advance 1000]"]
  obtain y where y: "run rt0 opts0 t [RemoteClose, RemoteConnect (1/2), Advance 1000] = Inr y"
    "emitted_of (trace y) = emitted_of (trace t)"
    by (elim exE conjE)
  from s1(1) y(1) have "y = s''" by (simp only: sum.inject)
  with y(2) have s2: "emitted_of (trace s'') = emitted_of (trace t)" by simp
  have s3: "locals s'' = []" using s1(2) i(4) by simp
  have t2: "trace t = [Emit (EvError ''connection refused: lt.example:4242 (check your firewall settings)''),
                 RemoteEnd]"
    using t(2) unfolding m i(3) by simp
  have A: "\<exists>t s''. step rt0 opts0 initial_state (RemoteError ?refused) = Inr t \<and>
      trace t = [Emit (EvError ''connection refused: lt.example:4242 (check your firewall settings)''),
                 RemoteEnd] \<and>
      run rt0 opts0 t [RemoteClose, RemoteConnect (1/2), Advance 1000] = Inr s'' \<and>
      locals s'' = [] \<and> emitted_of (trace s'') = emitted_of (trace t)"
    by (intro exI [of _ t] exI [of _ s''] conjI) (rule t(1) t2 s1(1) s3 s2)+
  have B: "step ?deaf opts0 initial_state (RemoteError ?refused) =
     Inl (Unhandled_error ''connection refused: lt.example:4242 (check your firewall settings)'',
          initial_state \<lparr> remote_destroyed := True \<rparr>)"
    using remote_error_handling [OF j i(2), where code = ?refused,
        THEN conjunct2, THEN conjunct1, THEN mp, OF l(2)]
    unfolding m .
  from remote_error_handling [OF i(1,2), where code = ?refused and host = "''lt.example''",
      THEN conjunct2, THEN conjunct2, THEN conjunct2, THEN conjunct1, THEN mp, OF h]
  obtain port digits where d: "remote_port opts0 = Some port"
    "refused_message opts0 = ''connection refused: '' @ ''lt.example'' @ '':'' @ digits
          @ '' (check your firewall settings)''"
    "decimal_value digits = port" "includes' (refused_message opts0) ''lt.example''"
    by (elim exE conjE)
  from d(1) p have "port = 4242" by simp
  with d(3) have d3: "decimal_value digits = 4242" by simp
  have C: "\<exists>digits. refused_message opts0 =
        ''connection refused: '' @ ''lt.example'' @ '':'' @ digits
          @ '' (check your firewall settings)'' \<and>
      decimal_value digits = 4242 \<and> includes' (refused_message opts0) ''lt.example''"
    by (intro exI [of _ digits] conjI) (rule d(2) d3 d(4))+
  obtain u where u: "session rt0 opts0 [RemoteConnect (1/2), LocalConnect 0] = Inr u"
    "\<not> remote_destroyed u" "length (locals u) = 1" "emitted_of (trace u) = [EvOpen]"
    "close_listeners u = [0]"
    by (simp add: eval_defs opts0_def rt0_def)
  have r: "?reset \<noteq> ?refused" by simp
  from remote_error_handling [OF u(1,2), where code = ?reset,
      THEN conjunct2, THEN conjunct2, THEN conjunct1, THEN mp, OF r]
  obtain v where v: "step rt0 opts0 u (RemoteError ?reset) = Inr v"
    "trace v = trace u @ [RemoteEnd]"
    by (elim exE conjE)
  note after' = remote_error_handling [OF u(1,2), where code = ?reset and s' = v,
      THEN conjunct2, THEN conjunct2, THEN conjunct2, THEN conjunct2, THEN mp, OF v(1)]
  from after' have cl: "\<exists>s''. step rt0 opts0 v RemoteClose = Inr s'' \<and>
               emitted_of (trace s'') =
                 emitted_of (trace v) @ (if close_listeners u = [] then [] else [EvDead])"
    by (elim conjE)
  from after' have later3: "\<forall>later. \<exists>s''. run rt0 opts0 v later = Inr s'' \<and>
               length (locals s'') = length (locals u) \<and>
               (\<exists>n. emitted_of (trace s'') = emitted_of (trace v) @ replicate n EvDead)"
    by (elim conjE)
  from cl obtain w where w: "step rt0 opts0 v RemoteClose = Inr w"
    "emitted_of (trace w) = emitted_of (trace v) @ (if close_listeners u = [] then [] else [EvDead])"
    by (elim exE conjE)
  have w2: "emitted_of (trace w) = [EvOpen, EvDead]"
    using w(2) v(2) u(4,5) by (simp add: emitted_of_append)
  from later3 [THEN spec, of "[RemoteClose]"]
  obtain x where x: "run rt0 opts0 v [RemoteClose] = Inr x"
    "length (locals x) = length (locals u)"
    by (elim exE conjE)
  have "run rt0 opts0 v [RemoteClose] = Inr w" using w(1) by simp
  with x(1) have "x = w" by simp
  with x(2) u(3) have w3: "length (locals w) = 1" by simp
  have D: "\<exists>s t s''. session rt0 opts0 [RemoteConnect (1/2), LocalConnect 0] = Inr s \<and>
      step rt0 opts0 s (RemoteError ?reset) = Inr t \<and>
      trace t = trace s @ [RemoteEnd] \<and>
      step rt0 opts0 t RemoteClose = Inr s'' \<and>
      emitted_of (trace s'') = [EvOpen, EvDead] \<and> length (locals s'') = 1"
    by (intro exI [of _ u] exI [of _ v] exI [of _ w] conjI) (rule u(1) v w(1) w2 w3)+
  from A B C D show ?thesis by (intro conjI)
qed

section \<open>The flag \<open>connecting\<close>\<close>

lemma connLocal_connecting:
  assumes "connLocal rt opt random s = Inr s'"
  shows "connecting s' = connecting s"
proof (cases "remote_destroyed s")
  case True
  then show ?thesis
    using assms by (auto simp: connLocal_destroyed emit_def do_effect_def)
next
  case False
  show ?thesis
  proof (cases "connect_local rt opt")
    case (Inl e)
    then show ?thesis using assms False by (simp add: connLocal_throws)
  next
    case (Inr tr)
    from connLocal_new_local [OF False Inr, of random] assms show ?thesis
      by auto
  qed
qed

lemma step_connecting:
  assumes c: "connecting s" and st: "step rt opt s e = Inr s'"
  shows "connecting s'"
proof (cases e)
  case (RemoteConnect r)
  show ?thesis
  proof (cases "remote_connect_once s \<and> \<not> remote_destroyed s")
    case True
    then have "connLocal rt opt r (emit EvOpen (s \<lparr> remote_connect_once := False \<rparr>)) = Inr s'"
      using st RemoteConnect by (simp add: remote_connect_handler_def)
    from connLocal_connecting [OF this] c show ?thesis
      by (simp add: emit_def do_effect_def)
  next
    case False
    then show ?thesis using st RemoteConnect c by auto
  qed
next
  case (TimerFire i r)
  show ?thesis
  proof (cases "i < length (timers s) \<and> timers s ! i \<le> now s")
    case True
    then have "connLocal rt opt r (s \<lparr> timers := take i (timers s) @ drop (Suc i) (timers s) \<rparr>) = Inr s'"
      using st TimerFire by simp
    from connLocal_connecting [OF this] c show ?thesis by simp
  next
    case False
    then show ?thesis using st TimerFire c by auto
  qed
next
  case (LocalError k code)
  then show ?thesis
    using st c
    by (auto simp: local_error_handler_fields update_local_def destroy_local_def split: if_splits)
next
  case (Advance ms)
  then show ?thesis using st c by auto
next
  case (RemoteData d)
  then have "frame s s'" using step_frame [OF st] by simp
  with c show ?thesis by (simp add: frame_def)
next
  case (RemoteError code)
  then have "frame s s'" using step_frame [OF st] by simp
  with c show ?thesis by (simp add: frame_def)
next
  case RemoteClose
  then have "frame s s'" using step_frame [OF st] by simp
  with c show ?thesis by (simp add: frame_def)
next
  case (LocalConnect k)
  then have "frame s s'" using step_frame [OF st] by simp
  with c show ?thesis by (simp add: frame_def)
next
  case (LocalTimeout k)
  then have "frame s s'" using step_frame [OF st] by simp
  with c show ?thesis by (simp add: frame_def)
next
  case (LocalData k d)
  then have "frame s s'" using step_frame [OF st] by simp
  with c show ?thesis by (simp add: frame_def)
next
  case (LocalClose k)
  then have "frame s s'" using step_frame [OF st] by simp
  with c show ?thesis by (simp add: frame_def)
qed

lemma run_connecting:
  assumes "connecting s" and "run rt opt s es = Inr s'"
  shows "connecting s'"
  using assms
proof (induction es arbitrary: s)
  case Nil
  then show ?case by simp
next
  case (Cons e es)
  then show ?case
    by (auto split: sum.splits dest: step_connecting)
qed

lemma remote_data_sets_connecting: "connecting (remote_data_handler rt data s)"
  by (simp add: remote_data_handler_def Let_def emit_def do_effect_def split: option.splits)

text \<open>
  C4. The data handler sets \<open>connecting\<close> for every chunk the remote delivers, and nothing
  in the program clears it. So in whatever state a run is after a chunk has been
  delivered, \<open>connecting\<close> is true; the idle-timeout handler and the 408 callback of any
  local socket return without doing anything; an idle timeout changes neither the trace
  nor the listeners nor the remote, and a chunk through the sentinel is only passed on.
\<close>

theorem connecting_is_never_reset:
  assumes "\<not> remote_destroyed s0"
    and "run rt opt s0 (RemoteData data # later) = Inr s"
  shows "connecting (remote_data_handler rt data s0) \<and> connecting s \<and>
         local_timeout_handler k s = s \<and> onTimeout_callback k s = s \<and>
         (\<exists>s'. step rt opt s (LocalTimeout k) = Inr s' \<and> trace s' = trace s \<and>
            close_listeners s' = close_listeners s \<and> remote_ended s' = remote_ended s \<and>
            connecting s') \<and>
         (\<exists>s'. step rt opt s (LocalData k chunk) = Inr s' \<and>
            emitted_of (trace s') = emitted_of (trace s) \<and>
            close_listeners s' = close_listeners s \<and> remote_ended s' = remote_ended s \<and>
            connecting s')"
proof -
  have "run rt opt (remote_data_handler rt data s0) later = Inr s"
    using assms by simp
  from run_connecting [OF remote_data_sets_connecting this]
  have c: "connecting s" .
  from signal_step_ignored [OF c, of rt opt k chunk]
  obtain s' where s': "step rt opt s (LocalData k chunk) = Inr s'"
    "trace s' = trace s \<or> trace s' = trace s @ [RemoteWrite chunk]"
    "close_listeners s' = close_listeners s" "remote_ended s' = remote_ended s" "connecting s'"
    by blast
  from s'(2) have "emitted_of (trace s') = emitted_of (trace s)"
    by (auto simp: emitted_of_append)
  with s' have d: "\<exists>s'. step rt opt s (LocalData k chunk) = Inr s' \<and>
            emitted_of (trace s') = emitted_of (trace s) \<and>
            close_listeners s' = close_listeners s \<and> remote_ended s' = remote_ended s \<and>
            connecting s'"
    by blast
  have h: "local_timeout_handler k s = s" "onTimeout_callback k s = s"
    using c by (simp_all add: local_timeout_handler_def onTimeout_callback_def)
  show ?thesis
    using remote_data_sets_connecting [of rt data s0] c h timeout_step_ignored [OF c, of rt opt k] d
    by blast
qed

theorem connecting_is_never_reset_witness:
  "\<exists>s0 s s'. session rt0 opts0 [RemoteConnect (1/2), LocalConnect 0] = Inr s0 \<and>
      run rt0 opts0 s0 [RemoteData ''GET / HTTP/1.1'', Advance 80000] = Inr s \<and> connecting s \<and>
      step rt0 opts0 s (LocalTimeout 0) = Inr s' \<and> trace s' = trace s \<and>
      remote_ended s' = remote_ended s"
proof -
  obtain s0 s where s: "session rt0 opts0 [RemoteConnect (1/2), LocalConnect 0] = Inr s0"
    "\<not> remote_destroyed s0"
    "run rt0 opts0 s0 [RemoteData ''GET / HTTP/1.1'', Advance 80000] = Inr s"
    by (simp add: eval_defs opts0_def rt0_def split: option.splits)
  from connecting_is_never_reset [OF s(2,3), of 0]
  obtain s' where "connecting s" "step rt0 opts0 s (LocalTimeout 0) = Inr s'" "trace s' = trace s"
    "remote_ended s' = remote_ended s"
    by blast
  with s(1,3) show ?thesis by blast
qed

section \<open>Reading the certificate files\<close>

lemma getLocalCertOpts_fails:
  assumes "\<not> allow_invalid_cert opt"
    and "read_file rt (local_cert opt) = Inl e \<or>
         (\<exists>cert. read_file rt (local_cert opt) = Inr cert \<and> read_file rt (local_key opt) = Inl e) \<or>
         (\<exists>cert key. read_file rt (local_cert opt) = Inr cert \<and>
            read_file rt (local_key opt) = Inr key \<and>
            truthy (local_ca opt) \<and> read_file rt (local_ca opt) = Inl e)"
  shows "getLocalCertOpts rt opt = Inl e"
  using assms by (auto simp: getLocalCertOpts_def)

lemma read_file_exn:
  assumes "read_file rt path = Inl e"
  shows "e = ERR_INVALID_ARG_TYPE \<or> (\<exists>p. e = ReadFailed p)"
  using assms by (auto simp: read_file_def split: option.splits)

lemma step_unpaired:
  assumes "unpaired s" and "remote_connect_once s" and "\<And>r. e \<noteq> RemoteConnect r"
  shows "(\<exists>s'. step rt opt s e = Inr s' \<and> unpaired s' \<and> remote_connect_once s') \<or>
         (\<exists>m s'. step rt opt s e = Inl (Unhandled_error m, s'))"
proof (cases e)
  case (RemoteConnect r)
  with assms(3) show ?thesis by blast
next
  case (RemoteData d)
  then show ?thesis
    using assms(1,2)
    by (auto simp: unpaired_def remote_data_handler_def Let_def emit_def do_effect_def
          split: option.splits)
next
  case (RemoteError c)
  then show ?thesis
    using assms(1,2) by (auto simp: unpaired_def remote_error_handler_def op_defs)
next
  case RemoteClose
  then show ?thesis
    using assms(1,2) by (auto simp: unpaired_def remote_close_event_def)
next
  case (LocalConnect k)
  then show ?thesis using assms(1,2) by (auto simp: unpaired_def local_alive_def)
next
  case (LocalError k c)
  then show ?thesis using assms(1,2) by (auto simp: unpaired_def local_alive_def)
next
  case (LocalTimeout k)
  then show ?thesis using assms(1,2) by (auto simp: unpaired_def local_alive_def)
next
  case (LocalData k d)
  then show ?thesis using assms(1,2) by (auto simp: unpaired_def local_alive_def)
next
  case (LocalClose k)
  then show ?thesis using assms(1,2) by (auto simp: unpaired_def local_alive_def)
next
  case (TimerFire i r)
  then show ?thesis using assms(1,2) by (auto simp: unpaired_def)
next
  case (Advance ms)
  then show ?thesis using assms(1,2) by (auto simp: unpaired_def)
qed

lemma run_unpaired:
  assumes "unpaired s" and "remote_connect_once s" and "\<forall>r. RemoteConnect r \<notin> set es"
  shows "(\<exists>s'. run rt opt s es = Inr s' \<and> unpaired s' \<and> remote_connect_once s') \<or>
         (\<exists>m s'. run rt opt s es = Inl (Unhandled_error m, s'))"
  using assms
proof (induction es arbitrary: s)
  case Nil
  then show ?case by simp
next
  case (Cons e es)
  have ne: "e \<noteq> RemoteConnect r" for r
    using Cons.prems(3) by auto
  have rest: "\<forall>r. RemoteConnect r \<notin> set es"
    using Cons.prems(3) by auto
  from step_unpaired [OF Cons.prems(1,2) ne, of rt opt]
  show ?case
  proof
    assume "\<exists>s'. step rt opt s e = Inr s' \<and> unpaired s' \<and> remote_connect_once s'"
    then obtain t where t: "step rt opt s e = Inr t" "unpaired t" "remote_connect_once t"
      by blast
    from Cons.IH [OF t(2,3) rest] t(1) show ?thesis by simp
  next
    assume "\<exists>m s'. step rt opt s e = Inl (Unhandled_error m, s')"
    then show ?thesis by auto
  qed
qed

lemma initial_unpaired:
  "unpaired (initial_state :: 'a state)" "remote_connect_once (initial_state :: 'a state)"
  by (simp_all add: unpaired_def initial_state_def)

lemma session_unpaired:
  assumes "\<forall>r. RemoteConnect r \<notin> set es"
  shows "(\<exists>s. session rt opt es = Inr s \<and> unpaired s \<and> remote_connect_once s) \<or>
         (\<exists>m s. session rt opt es = Inl (Unhandled_error m, s)) \<or>
         (\<exists>s. session rt opt es = Inl (ERR_MISSING_ARGS, s)) \<or>
         (\<exists>s. session rt opt es = Inl (ERR_SOCKET_BAD_PORT, s))"
proof (cases "check_port (remote_port opt)")
  case None
  then have e: "session rt opt es = run rt opt initial_state es"
    by (simp add: session_def open'_def)
  show ?thesis
    unfolding e using run_unpaired [OF initial_unpaired assms, of rt opt] by blast
next
  case (Some x)
  then have "x = ERR_MISSING_ARGS \<or> x = ERR_SOCKET_BAD_PORT"
    by (auto simp: check_port_def split: option.splits if_splits)
  with Some show ?thesis
    by (auto simp: session_def open'_def)
qed

text \<open>
  C2, as stated, fails: \<open>open()\<close> reads no file. With local HTTPS, no
  \<open>allow_invalid_cert\<close> and an unreadable certificate, \<open>open()\<close> returns normally; the
  exception of \<open>readFileSync\<close> leaves \<open>connLocal\<close> when the remote's \<open>connect\<close> handler runs
  it, after \<open>open\<close> has been emitted and the remote paused.
\<close>

theorem cert_read_failure_in_connLocal_counterexample:
  "local_https opts_tls \<and> \<not> allow_invalid_cert opts_tls \<and>
   read_file rt0 (local_cert opts_tls) = Inl (ReadFailed ''/etc/tunnel/client.crt'') \<and>
   open' rt0 opts_tls = Inr initial_state \<and>
   session rt0 opts_tls [] = Inr initial_state \<and>
   session rt0 opts_tls [RemoteConnect (1/2)] =
     Inl (ReadFailed ''/etc/tunnel/client.crt'',
          initial_state \<lparr> remote_connect_once := False, remote_paused := True,
                          trace := [Emit EvOpen, RemotePause] \<rparr>)"
  by (simp add: eval_defs opts_tls_def opts0_def rt0_def read_file_def getLocalCertOpts_def)

text \<open>
  C2, amended. Let local HTTPS be required without \<open>allow_invalid_cert\<close>, and let reading
  the certificate file fail, or the key file after the certificate was read, or the CA
  file (if \<open>local_ca\<close> is set) after both were read. Then:
  \<^item> \<open>open()\<close> does not raise that failure, whatever the options are otherwise; it returns
    normally if \<open>remote_port\<close> is a port that \<open>net.connect\<close> accepts;
  \<^item> as long as the remote's \<open>connect\<close> event has not been delivered, no handler raises it;
  \<^item> it is raised when the remote's \<open>connect\<close> handler runs \<open>connLocal\<close>, after \<open>open\<close> has
    been emitted and the remote paused.
\<close>

theorem cert_read_failure_in_connLocal:
  assumes "local_https opt" and "\<not> allow_invalid_cert opt"
    and "read_file rt (local_cert opt) = Inl e \<or>
         (\<exists>cert. read_file rt (local_cert opt) = Inr cert \<and> read_file rt (local_key opt) = Inl e) \<or>
         (\<exists>cert key. read_file rt (local_cert opt) = Inr cert \<and>
            read_file rt (local_key opt) = Inr key \<and>
            truthy (local_ca opt) \<and> read_file rt (local_ca opt) = Inl e)"
  shows "(\<forall>s. open' rt opt \<noteq> Inl (e, s)) \<and>
         ((\<exists>port. remote_port opt = Some port \<and> port \<le> 65535) \<longrightarrow>
            open' rt opt = Inr initial_state) \<and>
         ((\<forall>r. RemoteConnect r \<notin> set es) \<longrightarrow> (\<forall>s. session rt opt es \<noteq> Inl (e, s))) \<and>
         ((\<forall>r. RemoteConnect r \<notin> set es) \<and> session rt opt es = Inr s \<and> \<not> remote_destroyed s \<longrightarrow>
            step rt opt s (RemoteConnect random) =
              Inl (e, remote_pause (emit EvOpen (s \<lparr> remote_connect_once := False \<rparr>))) \<and>
            session rt opt (es @ [RemoteConnect random]) =
              Inl (e, remote_pause (emit EvOpen (s \<lparr> remote_connect_once := False \<rparr>))) \<and>
            trace (remote_pause (emit EvOpen (s \<lparr> remote_connect_once := False \<rparr>))) =
              trace s @ [Emit EvOpen, RemotePause])"
proof (intro conjI impI allI)
  have ex: "e = ERR_INVALID_ARG_TYPE \<or> (\<exists>p. e = ReadFailed p)"
    using assms(3) read_file_exn [of rt _ e] by blast
  fix t
  show "open' rt opt \<noteq> Inl (e, t)"
    using ex by (auto simp: open'_def check_port_def split: option.splits if_splits)
next
  assume "\<exists>port. remote_port opt = Some port \<and> port \<le> 65535"
  then show "open' rt opt = Inr initial_state"
    by (auto simp: open'_def check_port_def)
next
  fix t
  assume "\<forall>r. RemoteConnect r \<notin> set es"
  from session_unpaired [OF this, of rt opt]
  show "session rt opt es \<noteq> Inl (e, t)"
    using assms(3) read_file_exn [of rt _ e] by auto
next
  assume a: "(\<forall>r. RemoteConnect r \<notin> set es) \<and> session rt opt es = Inr s \<and> \<not> remote_destroyed s"
  then have nr: "\<forall>r. RemoteConnect r \<notin> set es" and ss: "session rt opt es = Inr s"
    and nd: "\<not> remote_destroyed s"
    by simp_all
  have g: "connect_local rt opt = Inl e"
    using getLocalCertOpts_fails [OF assms(2,3)] assms(1) by (simp add: connect_local_def)
  from session_unpaired [OF nr, of rt opt] ss have once: "remote_connect_once s"
    by auto
  have nd': "\<not> remote_destroyed (emit EvOpen (s \<lparr> remote_connect_once := False \<rparr>))"
    using nd by (simp add: emit_def do_effect_def)
  show st: "step rt opt s (RemoteConnect random) =
      Inl (e, remote_pause (emit EvOpen (s \<lparr> remote_connect_once := False \<rparr>)))"
    using connLocal_throws [OF nd' g, of random] once nd
    by (simp add: remote_connect_handler_def)
  show "session rt opt (es @ [RemoteConnect random]) =
      Inl (e, remote_pause (emit EvOpen (s \<lparr> remote_connect_once := False \<rparr>)))"
    using session_snoc [OF ss, of "RemoteConnect random"] st by simp
  show "trace (remote_pause (emit EvOpen (s \<lparr> remote_connect_once := False \<rparr>))) =
      trace s @ [Emit EvOpen, RemotePause]"
    by (simp add: op_defs)
qed

theorem cert_read_failure_in_connLocal_witness:
  "open' rt0 opts_tls = Inr initial_state \<and>
   (\<forall>s. session rt0 opts_tls [RemoteData ''GET / HTTP/1.1'', Advance 5] \<noteq>
          Inl (ReadFailed ''/etc/tunnel/client.crt'', s)) \<and>
   session rt0 opts_tls [RemoteConnect (1/2)] =
     Inl (ReadFailed ''/etc/tunnel/client.crt'',
          remote_pause (emit EvOpen (initial_state \<lparr> remote_connect_once := False \<rparr>))) \<and>
   trace (remote_pause (emit EvOpen (initial_state \<lparr> remote_connect_once := False \<rparr> :: string state))) =
     [Emit EvOpen, RemotePause]"
proof -
  have a: "local_https opts_tls" "\<not> allow_invalid_cert opts_tls"
    by (simp_all add: opts_tls_def opts0_def)
  have b: "read_file rt0 (local_cert opts_tls) = Inl (ReadFailed ''/etc/tunnel/client.crt'') \<or>
         (\<exists>cert. read_file rt0 (local_cert opts_tls) = Inr cert \<and>
                 read_file rt0 (local_key opts_tls) = Inl (ReadFailed ''/etc/tunnel/client.crt'')) \<or>
         (\<exists>cert key. read_file rt0 (local_cert opts_tls) = Inr cert \<and>
            read_file rt0 (local_key opts_tls) = Inr key \<and>
            truthy (local_ca opts_tls) \<and>
            read_file rt0 (local_ca opts_tls) = Inl (ReadFailed ''/etc/tunnel/client.crt''))"
    by (simp add: read_file_def opts_tls_def rt0_def)
  have p: "\<exists>port. remote_port opts_tls = Some port \<and> port \<le> 65535"
    by (simp add: opts_tls_def opts0_def)
  have n1: "\<forall>r. RemoteConnect r \<notin> set [RemoteData ''GET / HTTP/1.1'', Advance 5 :: string event]"
    by simp
  have n2: "\<forall>r. RemoteConnect r \<notin> set ([] :: string event list)"
    by simp
  have i: "session rt0 opts_tls [] = Inr (initial_state :: string state)"
    "\<not> remote_destroyed (initial_state :: string state)"
    "trace (initial_state :: string state) = []"
    by (simp_all add: eval_defs opts_tls_def opts0_def)
  have A: "open' rt0 opts_tls = Inr initial_state"
    using cert_read_failure_in_connLocal [OF a b] p by blast
  have B: "\<forall>s. session rt0 opts_tls [RemoteData ''GET / HTTP/1.1'', Advance 5] \<noteq>
          Inl (ReadFailed ''/etc/tunnel/client.crt'', s)"
    using cert_read_failure_in_connLocal
      [OF a b, where es = "[RemoteData ''GET / HTTP/1.1'', Advance 5]"] n1
    by blast
  note T = cert_read_failure_in_connLocal
      [OF a b, where es = "[]" and s = "initial_state :: string state" and random = "1/2"]
  from T n2 i(1,2)
  have C: "session rt0 opts_tls ([] @ [RemoteConnect (1/2)]) =
     Inl (ReadFailed ''/etc/tunnel/client.crt'',
          remote_pause (emit EvOpen (initial_state \<lparr> remote_connect_once := False \<rparr>)))"
    and D: "trace (remote_pause (emit EvOpen (initial_state \<lparr> remote_connect_once := False \<rparr> :: string state))) =
     trace (initial_state :: string state) @ [Emit EvOpen, RemotePause]"
    by blast+
  from A B C D i(3) show ?thesis by simp
qed

section \<open>The sentinel in the program\<close>

lemma injector_after_callback:
  "l_timeoutInjector (locals (onTimeout_callback j s) ! k) = l_timeoutInjector (locals s ! k)"
proof (cases "j < length (locals s)")
  case True
  then show ?thesis
    by (cases "j = k") (simp_all add: onTimeout_callback_def op_defs)
next
  case False
  then have "(locals s)[j := (locals s ! j) \<lparr> l_ended := True \<rparr>] = locals s"
    by (simp add: list_update_beyond)
  then show ?thesis
    by (simp add: onTimeout_callback_def op_defs)
qed

lemma injector_after_callbacks:
  "l_timeoutInjector (locals (fold onTimeout_callback ks s) ! k) = l_timeoutInjector (locals s ! k)"
  by (induction ks arbitrary: s) (simp_all add: injector_after_callback)

lemma local_data_event_injector:
  assumes "k < length (locals s)" and "l_timeoutInjector (locals s ! k) = Some injector"
  shows "l_timeoutInjector (locals (local_data_event rt k data s) ! k) =
           Some (instance_after (transform' (toString rt) data injector))"
  using assms
  by (simp add: local_data_event_def Let_def do_effect_def injector_after_callbacks update_local_def)

lemma local_connect_handler_injector:
  assumes "k < length (locals s)"
  shows "l_timeoutInjector (locals (local_connect_handler opt k s) ! k) = Some (onTimeout k constructor)"
  using assms by (simp add: local_connect_handler_def Let_def op_defs)

text \<open>
  C8. An instance set up as the program does it (constructed, then one \<open>onTimeout\<close>) runs
  that callback at most once over any stream of chunks, however many of them carry the
  marker: it runs once if some chunk carries it and never otherwise. Once a chunk with the
  marker has gone through, no listener is registered any more and no later chunk runs the
  callback. For an instance in any state, the callbacks run over a whole stream are the
  listeners registered at its start, each once, or none. In the program, the connect
  handler of a local socket gives the socket a new instance with one registration, and
  a chunk from the socket leaves the instance without listener if it carries the marker
  and as it was otherwise: nothing registers a callback again.
\<close>

theorem sentinel_fires_at_most_once:
  "length (fst (transform_all decode chunks (onTimeout cb constructor))) \<le> 1 \<and>
   fst (transform_all decode chunks (onTimeout cb constructor)) =
     (if \<exists>c \<in> set chunks. has_marker decode c then [cb] else []) \<and>
   ((\<exists>c \<in> set chunks. has_marker decode c) \<longrightarrow>
      emitter (snd (snd (transform_all decode chunks (onTimeout cb constructor)))) = [] \<and>
      fst (transform_all decode later
             (snd (snd (transform_all decode chunks (onTimeout cb constructor))))) = []) \<and>
   fst (transform_all decode chunks this) =
     (if \<exists>c \<in> set chunks. has_marker decode c then emitter this else []) \<and>
   (k < length (locals s) \<longrightarrow>
      l_timeoutInjector (locals (local_connect_handler opt k s) ! k) =
        Some (onTimeout k constructor)) \<and>
   (k < length (locals s) \<and> l_timeoutInjector (locals s ! k) = Some injector \<longrightarrow>
      (\<exists>after. l_timeoutInjector (locals (local_data_event rt k data s) ! k) = Some after \<and>
         emitter after = (if has_marker (toString rt) data then [] else emitter injector)))"
proof -
  have a: "length (fst (transform_all decode chunks (onTimeout cb constructor))) \<le> 1 \<and>
   fst (transform_all decode chunks (onTimeout cb constructor)) =
     (if \<exists>c \<in> set chunks. has_marker decode c then [cb] else []) \<and>
   ((\<exists>c \<in> set chunks. has_marker decode c) \<longrightarrow>
      emitter (snd (snd (transform_all decode chunks (onTimeout cb constructor)))) = [] \<and>
      fst (transform_all decode later
             (snd (snd (transform_all decode chunks (onTimeout cb constructor))))) = []) \<and>
   fst (transform_all decode chunks this) =
     (if \<exists>c \<in> set chunks. has_marker decode c then emitter this else [])"
    by (simp add: transform_all_invoked transform_all_final onTimeout_def constructor_def)
  have b: "l_timeoutInjector (locals (local_connect_handler opt k s) ! k) =
        Some (onTimeout k constructor)" if "k < length (locals s)"
    using that by (rule local_connect_handler_injector)
  have c: "\<exists>after. l_timeoutInjector (locals (local_data_event rt k data s) ! k) = Some after \<and>
         emitter after = (if has_marker (toString rt) data then [] else emitter injector)"
    if "k < length (locals s) \<and> l_timeoutInjector (locals s ! k) = Some injector"
    using that local_data_event_injector [of k s injector rt data]
    by (simp add: transform_instance_after)
  from a b c show ?thesis by blast
qed

theorem sentinel_fires_at_most_once_witness:
  "fst (transform_all js [''408 Request Timeout'', ''ok'', ''HTTP/1.1 408 Request Timeout'']
          (onTimeout (7::nat) constructor)) = [7] \<and>
   emitter (snd (snd (transform_all js [''408 Request Timeout'', ''ok'', ''HTTP/1.1 408 Request Timeout'']
          (onTimeout (7::nat) constructor)))) = [] \<and>
   (\<exists>s after. session rt0 opts0 [RemoteConnect (1/2), LocalConnect 0] = Inr s \<and>
      l_timeoutInjector (locals s ! 0) = Some (onTimeout 0 constructor) \<and>
      l_timeoutInjector (locals (local_data_event rt0 0 ''HTTP/1.1 408 Request Timeout'' s) ! 0)
        = Some after \<and> emitter after = [])"
proof -
  have m: "has_marker js ''408 Request Timeout''"
    by (simp add: has_marker_def timeout_marker_def js_def)
  then have ex: "\<exists>c \<in> set [''408 Request Timeout'', ''ok'', ''HTTP/1.1 408 Request Timeout'']. has_marker js c"
    by simp
  obtain s where s: "session rt0 opts0 [RemoteConnect (1/2), LocalConnect 0] = Inr s"
    "0 < length (locals s)" "l_timeoutInjector (locals s ! 0) = Some (onTimeout 0 constructor)"
    by (simp add: eval_defs opts0_def rt0_def)
  have m2: "has_marker (toString rt0) ''HTTP/1.1 408 Request Timeout''"
    by (simp add: has_marker_def timeout_marker_def js_def rt0_def)
  note T = sentinel_fires_at_most_once
      [where decode = js and cb = "7::nat" and later = "[]" and this = "onTimeout (7::nat) constructor"
         and chunks = "[''408 Request Timeout'', ''ok'', ''HTTP/1.1 408 Request Timeout'']"
         and k = 0 and s = s and injector = "onTimeout 0 constructor" and rt = rt0
         and data = "''HTTP/1.1 408 Request Timeout''" and opt = opts0]
  have A: "fst (transform_all js [''408 Request Timeout'', ''ok'', ''HTTP/1.1 408 Request Timeout'']
          (onTimeout (7::nat) constructor)) = [7] \<and>
   emitter (snd (snd (transform_all js [''408 Request Timeout'', ''ok'', ''HTTP/1.1 408 Request Timeout'']
          (onTimeout (7::nat) constructor)))) = []"
    using ex T by (simp only: if_True simp_thms; blast)
  have B: "\<exists>after. l_timeoutInjector (locals (local_data_event rt0 0 ''HTTP/1.1 408 Request Timeout'' s) ! 0)
        = Some after \<and> emitter after = []"
    using T s(2,3) m2 by (simp only: if_True simp_thms; blast)
  from A B s(1,3) show ?thesis by blast
qed

end
